theory Spec2Isabelle
  imports Main "HOL-Library.Sublist"
begin

section \<open>Package channel: middlewares and the option that registers them\<close>

subsection \<open>Data model\<close>

text \<open>
  \<^verbatim>\<open>type Middleware[T any] func(T) bool\<close>

  A middleware is a predicate over the element type.
\<close>

type_synonym 'a Middleware = "'a \<Rightarrow> bool"

text \<open>
  A Go slice is a header: a reference to a backing array, the position in that array
  of the slice's element 0, a length and a capacity. Two headers may refer to the same
  array, and then a write through one is seen through the other. The nil slice has
  length and capacity 0.
\<close>

record slice =
  arr :: nat
  off :: nat
  len :: nat
  cap :: nat

definition nil_slice :: slice where
  "nil_slice = \<lparr>arr = 0, off = 0, len = 0, cap = 0\<rparr>"

text \<open>
  The struct \<^verbatim>\<open>options[T]\<close> is declared outside \<^verbatim>\<open>middleware.go\<close>; the only field
  this file touches is \<^verbatim>\<open>middlewares\<close>, of type \<^verbatim>\<open>[]Middleware[T]\<close>. The record is used
  through its extensible scheme \<open>'z options_scheme\<close>, so that \<open>'z\<close> stands for whatever
  further fields the struct has.
\<close>

record options =
  middlewares :: slice

text \<open>
  The heap: the backing arrays, addressed by their index in the list of all arrays (a
  new array is put at the end, so its address is fresh), and the live instances of
  \<^verbatim>\<open>options[T]\<close>, addressed by pointers.
\<close>

record ('a, 'z) heap =
  arrays :: "'a Middleware list list"
  instances :: "nat \<rightharpoonup> 'z options_scheme"

text \<open>
  A pointer \<^verbatim>\<open>*options[T]\<close> is nil or the address of an instance. Using a pointer that
  leads to no instance is Go's run-time panic "invalid memory address or nil pointer
  dereference"; an index outside a slice is the panic "index out of range".
\<close>

datatype ptr = NilPtr | Ptr nat

datatype panic = NilPointerDereference | IndexOutOfRange

text \<open>
  Two things the Go run time fixes and the source does not: the capacity \<^verbatim>\<open>append\<close>
  chooses when it has to allocate (any capacity that holds the result; \<open>growslice\<close>
  proposes one from the old capacity), and the zero value of the element type that
  fills the rest of a new array (the nil function, for which the function space of HOL
  has no element of its own).
\<close>

record 'a runtime =
  growslice :: "nat \<Rightarrow> nat"
  nil_func :: "'a Middleware"

subsection \<open>Slices on the heap\<close>

text \<open>The elements \<^verbatim>\<open>s[0], ..., s[len(s)-1]\<close> as the heap holds them now.\<close>

definition elems :: "('a, 'z) heap \<Rightarrow> slice \<Rightarrow> 'a Middleware list" where
  "elems h s =
     (if arr s < length (arrays h) then take (len s) (drop (off s) (arrays h ! arr s))
      else [])"

text \<open>
  Every slice a Go program can hold is valid: its length is at most its capacity, and
  its capacity lies within its backing array.
\<close>

definition valid_slice :: "('a, 'z) heap \<Rightarrow> slice \<Rightarrow> bool" where
  "valid_slice h s =
     (len s \<le> cap s \<and>
      (cap s = 0 \<or>
       (arr s < length (arrays h) \<and> off s + cap s \<le> length (arrays h ! arr s))))"

text \<open>
  The index expression \<^verbatim>\<open>s[i]\<close>, with its bounds check \<open>i < len s\<close>. For a valid slice
  the two conditions on the backing array follow from the bounds check.
\<close>

definition slice_index :: "('a, 'z) heap \<Rightarrow> slice \<Rightarrow> nat \<Rightarrow> panic + 'a Middleware" where
  "slice_index h s i =
     (if i < len s \<and> arr s < length (arrays h) \<and> off s + i < length (arrays h ! arr s)
      then Inr (arrays h ! arr s ! (off s + i))
      else Inl IndexOutOfRange)"

text \<open>The assignment \<^verbatim>\<open>s[i] = x\<close>.\<close>

definition slice_assign ::
  "('a, 'z) heap \<Rightarrow> slice \<Rightarrow> nat \<Rightarrow> 'a Middleware \<Rightarrow> panic + ('a, 'z) heap" where
  "slice_assign h s i x =
     (if i < len s \<and> arr s < length (arrays h) \<and> off s + i < length (arrays h ! arr s)
      then Inr (h\<lparr>arrays := (arrays h)[arr s := (arrays h ! arr s)[off s + i := x]]\<rparr>)
      else Inl IndexOutOfRange)"

text \<open>
  The built-in \<^verbatim>\<open>append(s, x)\<close> for one element. If the capacity has room, the element
  is written in place into the backing array, at the cell just after the slice, and
  the result is the same slice one longer. Otherwise a new array is allocated, large
  enough for the result; the elements are copied, the new one follows, the rest is
  zero, and the result refers to the new array.
\<close>

definition slice_append ::
  "'a runtime \<Rightarrow> ('a, 'z) heap \<Rightarrow> slice \<Rightarrow> 'a Middleware \<Rightarrow> slice \<times> ('a, 'z) heap" where
  "slice_append rt h s x =
     (if len s < cap s then
        (s\<lparr>len := Suc (len s)\<rparr>,
         h\<lparr>arrays := (arrays h)[arr s := (arrays h ! arr s)[off s + len s := x]]\<rparr>)
      else
        (let n = max (Suc (len s)) (growslice rt (cap s)) in
          (\<lparr>arr = length (arrays h), off = 0, len = Suc (len s), cap = n\<rparr>,
           h\<lparr>arrays := arrays h @
               [elems h s @ [x] @ replicate (n - Suc (len s)) (nil_func rt)]\<rparr>)))"

text \<open>
  The slice that a call with explicit arguments \<^verbatim>\<open>f(m1, ..., mn)\<close> passes for a variadic
  parameter: nil when there is no argument, otherwise a new slice on a new array that
  holds the arguments. A call \<^verbatim>\<open>f(s...)\<close> passes the slice \<open>s\<close> itself.
\<close>

definition variadic ::
  "'a Middleware list \<Rightarrow> ('a, 'z) heap \<Rightarrow> slice \<times> ('a, 'z) heap" where
  "variadic ms h =
     (if ms = [] then (nil_slice, h)
      else (\<lparr>arr = length (arrays h), off = 0, len = length ms, cap = length ms\<rparr>,
            h\<lparr>arrays := arrays h @ [ms]\<rparr>))"

text \<open>
  The cells that appending to \<open>s\<close> may write in place are those of its spare capacity,
  from \<open>off s + len s\<close> up to \<open>off s + cap s\<close>. The slice \<open>s\<close> writes into the slice \<open>t\<close>
  when one of these cells is an element of \<open>t\<close>.
\<close>

definition writes_into :: "slice \<Rightarrow> slice \<Rightarrow> bool" where
  "writes_into s t =
     (arr s = arr t \<and> len s < cap s \<and> 0 < len t \<and>
      off s + len s < off t + len t \<and> off t < off s + cap s)"

subsection \<open>WithMiddleware\<close>

text \<open>
  \<^verbatim>\<open>
  func WithMiddleware[T any](middlewares ...Middleware[T]) func(*options[T]) {
      return func(o *options[T]) {
          for idx := range middlewares {
              o.middlewares = append(o.middlewares, middlewares[idx])
          }
      }
  }
  \<close>

  The parameter \<^verbatim>\<open>middlewares\<close> is a slice header; the function literal captures it, not
  a copy of its elements. The loop runs \<open>idx\<close> over \<open>0 ..< len(middlewares)\<close>. Each
  iteration reads \<^verbatim>\<open>o.middlewares\<close> through the pointer, reads \<^verbatim>\<open>middlewares[idx]\<close> from
  the heap as it is then, appends, and writes the resulting header back into the
  struct. With an empty batch the body never runs and the pointer is never used.
\<close>

function WithMiddleware_loop ::
  "'a runtime \<Rightarrow> nat \<Rightarrow> slice \<Rightarrow> ptr \<Rightarrow> ('a, 'z) heap \<Rightarrow> panic + ('a, 'z) heap" where
  "WithMiddleware_loop rt idx ms p h =
     (if idx < len ms then
        (case p of
           NilPtr \<Rightarrow> Inl NilPointerDereference
         | Ptr a \<Rightarrow>
             (case instances h a of
                None \<Rightarrow> Inl NilPointerDereference
              | Some opts \<Rightarrow>
                  (case slice_index h ms idx of
                     Inl e \<Rightarrow> Inl e
                   | Inr m \<Rightarrow>
                       (case slice_append rt h (middlewares opts) m of
                          (s', h') \<Rightarrow>
                            WithMiddleware_loop rt (Suc idx) ms p
                              (h'\<lparr>instances :=
                                 (instances h')(a \<mapsto> opts\<lparr>middlewares := s'\<rparr>)\<rparr>)))))
      else Inr h)"
  by pat_completeness auto
termination
  by (relation "measure (\<lambda>(rt, idx, ms, p, h). len ms - idx)") auto

declare WithMiddleware_loop.simps [simp del]

text \<open>The function literal that \<^verbatim>\<open>WithMiddleware\<close> returns; it holds the slice header.\<close>

type_synonym ('a, 'z) option_func = "ptr \<Rightarrow> ('a, 'z) heap \<Rightarrow> panic + ('a, 'z) heap"

definition WithMiddleware_func :: "'a runtime \<Rightarrow> slice \<Rightarrow> ('a, 'z) option_func" where
  "WithMiddleware_func rt ms = (\<lambda>p h. WithMiddleware_loop rt 0 ms p h)"

text \<open>
  The call of \<^verbatim>\<open>WithMiddleware\<close> itself, as a step on the heap: its body is the single
  \<^verbatim>\<open>return\<close> of the function literal.
\<close>

definition WithMiddleware ::
  "'a runtime \<Rightarrow> slice \<Rightarrow> ('a, 'z) heap \<Rightarrow> ('a, 'z) option_func \<times> ('a, 'z) heap" where
  "WithMiddleware rt ms h = (WithMiddleware_func rt ms, h)"

text \<open>The call with explicit arguments, \<^verbatim>\<open>WithMiddleware(m1, ..., mn)\<close>.\<close>

definition WithMiddleware_args ::
  "'a runtime \<Rightarrow> 'a Middleware list \<Rightarrow> ('a, 'z) heap \<Rightarrow>
     ('a, 'z) option_func \<times> ('a, 'z) heap" where
  "WithMiddleware_args rt ms h = (case variadic ms h of (s, h') \<Rightarrow> WithMiddleware rt s h')"

text \<open>
  Consecutive call statements \<^verbatim>\<open>f1(o); f2(o); ...\<close> on one pointer: each function runs
  on the heap the previous one left, and a panic stops the sequence.
\<close>

fun apply_in_order ::
  "('a, 'z) option_func list \<Rightarrow> ptr \<Rightarrow> ('a, 'z) heap \<Rightarrow> panic + ('a, 'z) heap" where
  "apply_in_order [] p h = Inr h"
| "apply_in_order (f # fs) p h =
     (case f p h of Inl e \<Rightarrow> Inl e | Inr h' \<Rightarrow> apply_in_order fs p h')"

text \<open>The middleware sequence of an instance, as the heap holds it now.\<close>

text \<open>The middleware sequence of an instance, as the heap holds it now.\<close>

definition sequence :: "('a, 'z) heap \<Rightarrow> 'z options_scheme \<Rightarrow> 'a Middleware list" where
  "sequence h opts = elems h (middlewares opts)"

text \<open>
  The middleware sequence of the instance at an address after a run: nothing if the
  run panicked or there is no such instance.
\<close>

definition sequence_after :: "panic + ('a, 'z) heap \<Rightarrow> nat \<Rightarrow> 'a Middleware list option" where
  "sequence_after r a =
     (case r of
        Inl e \<Rightarrow> None
      | Inr h \<Rightarrow> (case instances h a of None \<Rightarrow> None | Some opts \<Rightarrow> Some (sequence h opts)))"

subsection \<open>Evaluation by the owning component\<close>

text \<open>
  Modelled from the spec: the evaluation of a value against the middleware sequence
  is done by the owning component, whose code is not part of \<^verbatim>\<open>middleware.go\<close>. The
  spec (section 4.3) gives the contract: the middlewares are evaluated in registration
  order; the first one that returns false rejects the value at once and no later one
  is evaluated; if all return true (in particular if there are none) the value
  passes. The result carries, beside the verdict, the positions of the middlewares
  that were invoked, in invocation order.
\<close>

datatype verdict = Passed | Rejected

fun evaluate_from :: "nat \<Rightarrow> 'a Middleware list \<Rightarrow> 'a \<Rightarrow> verdict \<times> nat list" where
  "evaluate_from i [] v = (Passed, [])"
| "evaluate_from i (m # ms) v =
     (if m v then (case evaluate_from (Suc i) ms v of (r, tr) \<Rightarrow> (r, i # tr))
      else (Rejected, [i]))"

definition evaluate :: "('a, 'z) heap \<Rightarrow> 'z options_scheme \<Rightarrow> 'a \<Rightarrow> verdict \<times> nat list" where
  "evaluate h opts v = evaluate_from 0 (sequence h opts) v"

text \<open>The middlewares invoked for a value, in invocation order.\<close>

definition invoked :: "('a, 'z) heap \<Rightarrow> 'z options_scheme \<Rightarrow> 'a \<Rightarrow> 'a Middleware list" where
  "invoked h opts v = map (\<lambda>i. sequence h opts ! i) (snd (evaluate h opts v))"

subsection \<open>Example inputs\<close>

text \<open>The two middlewares of the spec's example scenario (section 8), on integers.\<close>

definition isEven :: "int Middleware" where
  "isEven x = (x mod 2 = 0)"

definition isPositive :: "int Middleware" where
  "isPositive x = (0 < x)"

text \<open>A run time that doubles the capacity and whose zero middleware accepts nothing.\<close>

definition rt0 :: "int runtime" where
  "rt0 = \<lparr>growslice = (\<lambda>c. 2 * c), nil_func = (\<lambda>x. False)\<rparr>"

text \<open>Slice headers: one element of array 0, one element of array 1, two of array 0.\<close>

definition first_slice :: slice where
  "first_slice = \<lparr>arr = 0, off = 0, len = 1, cap = 1\<rparr>"

definition second_slice :: slice where
  "second_slice = \<lparr>arr = 1, off = 0, len = 1, cap = 1\<rparr>"

definition pair_slice :: slice where
  "pair_slice = \<lparr>arr = 0, off = 0, len = 2, cap = 2\<rparr>"

text \<open>
  A caller's slice \<^verbatim>\<open>s := []Middleware[int]{isEven}\<close> (array 0, header \<open>first_slice\<close>)
  and a freshly created instance at address 1, whose slice is nil; and the same heap
  after the caller's assignment \<^verbatim>\<open>s[0] = isPositive\<close>.
\<close>

definition fresh_heap :: "(int, unit) heap" where
  "fresh_heap =
     \<lparr>arrays = [[isEven]], instances = Map.empty(1 \<mapsto> \<lparr>middlewares = nil_slice\<rparr>)\<rparr>"

definition mutated_heap :: "(int, unit) heap" where
  "mutated_heap =
     \<lparr>arrays = [[isPositive]], instances = Map.empty(1 \<mapsto> \<lparr>middlewares = nil_slice\<rparr>)\<rparr>"

text \<open>
  The heap \<open>fresh_heap\<close> after \<^verbatim>\<open>f := WithMiddleware(s...); f(o)\<close>: the instance has a new
  array (array 1) holding \<open>isEven\<close>; and that heap after \<^verbatim>\<open>s[0] = isPositive\<close>.
\<close>

definition applied_heap :: "(int, unit) heap" where
  "applied_heap =
     \<lparr>arrays = [[isEven], [isEven]],
      instances = Map.empty(1 \<mapsto> \<lparr>middlewares = second_slice\<rparr>)\<rparr>"

definition remutated_heap :: "(int, unit) heap" where
  "remutated_heap =
     \<lparr>arrays = [[isPositive], [isEven]],
      instances = Map.empty(1 \<mapsto> \<lparr>middlewares = second_slice\<rparr>)\<rparr>"

text \<open>
  Two caller's slices, \<^verbatim>\<open>ab = {isEven, isPositive}\<close> (array 0, header \<open>pair_slice\<close>) and
  \<^verbatim>\<open>c = {isEven}\<close> (array 1, header \<open>second_slice\<close>), with a fresh instance; and the
  same heap after \<^verbatim>\<open>c[0] = isPositive\<close>.
\<close>

definition batches_heap :: "(int, unit) heap" where
  "batches_heap =
     \<lparr>arrays = [[isEven, isPositive], [isEven]],
      instances = Map.empty(1 \<mapsto> \<lparr>middlewares = nil_slice\<rparr>)\<rparr>"

definition batches_mutated_heap :: "(int, unit) heap" where
  "batches_mutated_heap =
     \<lparr>arrays = [[isEven, isPositive], [isPositive]],
      instances = Map.empty(1 \<mapsto> \<lparr>middlewares = nil_slice\<rparr>)\<rparr>"

text \<open>
  An instance whose slice shares its backing array with the batch, as after
  \<^verbatim>\<open>s := make([]Middleware[int], 2, 4); s[0] = isEven; s[1] = isPositive;
  o.middlewares = s[:1]\<close>; the batch is \<open>s\<close> itself.
\<close>

definition whole_slice :: slice where
  "whole_slice = \<lparr>arr = 0, off = 0, len = 2, cap = 4\<rparr>"

definition aliased_heap :: "(int, unit) heap" where
  "aliased_heap =
     \<lparr>arrays = [[isEven, isPositive, nil_func rt0, nil_func rt0]],
      instances = Map.empty(
        1 \<mapsto> \<lparr>middlewares = \<lparr>arr = 0, off = 0, len = 1, cap = 4\<rparr>\<rparr>)\<rparr>"

text \<open>
  Two instances whose slices share one backing array of capacity 4 (array 0), as after
  \<^verbatim>\<open>o1.middlewares = s[:1]; o2.middlewares = s[:2]\<close> with \<open>s\<close> holding \<open>isEven\<close> twice, and a
  caller's slice holding \<open>isPositive\<close> (array 1, header \<open>second_slice\<close>).
\<close>

definition shared_heap :: "(int, unit) heap" where
  "shared_heap =
     \<lparr>arrays = [[isEven, isEven, nil_func rt0, nil_func rt0], [isPositive]],
      instances = Map.empty(
        1 \<mapsto> \<lparr>middlewares = \<lparr>arr = 0, off = 0, len = 1, cap = 4\<rparr>\<rparr>,
        2 \<mapsto> \<lparr>middlewares = whole_slice\<rparr>)\<rparr>"

text \<open>
  Two instances with slices of their own and a further field (here a flag): the first
  holds \<open>isEven\<close> in array 0, the second is empty; array 1 is a caller's slice holding
  \<open>isPositive\<close>.
\<close>

definition own_heap :: "(int, bool) heap" where
  "own_heap =
     \<lparr>arrays = [[isEven], [isPositive]],
      instances = Map.empty(
        1 \<mapsto> \<lparr>middlewares = first_slice, \<dots> = True\<rparr>,
        2 \<mapsto> \<lparr>middlewares = nil_slice, \<dots> = False\<rparr>)\<rparr>"

text \<open>
  The configured instance of the spec's example scenario, with \<open>isEven\<close> and then
  \<open>isPositive\<close>.
\<close>

definition even_positive_heap :: "(int, unit) heap" where
  "even_positive_heap =
     \<lparr>arrays = [[isEven, isPositive]],
      instances = Map.empty(1 \<mapsto> \<lparr>middlewares = pair_slice\<rparr>)\<rparr>"

text \<open>
  The heap \<open>fresh_heap\<close> after \<^verbatim>\<open>f := WithMiddleware(isPositive, isPositive); f(o)\<close>:
  array 1 holds the arguments, arrays 2 and 3 are the ones the two appends allocated,
  and the instance's slice is the whole of array 3.
\<close>

definition twice_slice :: slice where
  "twice_slice = \<lparr>arr = 3, off = 0, len = 2, cap = 2\<rparr>"

definition registered_twice_heap :: "(int, unit) heap" where
  "registered_twice_heap =
     \<lparr>arrays = [[isEven], [isPositive, isPositive], [isPositive], [isPositive, isPositive]],
      instances = Map.empty(1 \<mapsto> \<lparr>middlewares = twice_slice\<rparr>)\<rparr>"

section \<open>Properties\<close>

subsection \<open>Lists\<close>

lemma take_drop_update_end:
  "k + n < length cs \<Longrightarrow> take (Suc n) (drop k (cs[k + n := x])) = take n (drop k cs) @ [x]"
  by (simp add: drop_update_swap take_Suc_conv_app_nth)

lemma take_drop_update_outside:
  "w < k \<or> k + n \<le> w \<Longrightarrow> take n (drop k (cs[w := x])) = take n (drop k cs)"
proof (cases "w < k")
  case True
  then show ?thesis by simp
next
  case False
  assume "w < k \<or> k + n \<le> w"
  with False have "k \<le> w" and "n \<le> w - k" by simp_all
  then show ?thesis by (simp add: drop_update_swap)
qed

lemma length_nth_update_cell:
  "k < length xs \<Longrightarrow> length (xs[i := (xs ! i)[j := x]] ! k) = length (xs ! k)"
  by (cases "i = k") simp_all

subsection \<open>Slices\<close>

lemma elems_instances [simp]: "elems (h\<lparr>instances := i\<rparr>) s = elems h s"
  by (simp add: elems_def)

lemma valid_slice_instances [simp]: "valid_slice (h\<lparr>instances := i\<rparr>) s = valid_slice h s"
  by (simp add: valid_slice_def)

lemma length_elems: "valid_slice h s \<Longrightarrow> length (elems h s) = len s"
  by (auto simp add: valid_slice_def elems_def)

lemma slice_index_elems:
  "valid_slice h s \<Longrightarrow> i < len s \<Longrightarrow> slice_index h s i = Inr (elems h s ! i)"
  by (auto simp add: valid_slice_def slice_index_def elems_def)

subsection \<open>One append\<close>

lemma slice_append_instances: "instances (snd (slice_append rt h s x)) = instances h"
  by (simp add: slice_append_def Let_def)

lemma slice_append_valid:
  assumes "valid_slice h s"
  shows "valid_slice (snd (slice_append rt h s x)) (fst (slice_append rt h s x))"
proof (cases "len s < cap s")
  case True
  with assms show ?thesis
    by (auto simp add: valid_slice_def slice_append_def)
next
  case False
  with assms have "length (elems h s) = len s"
    by (simp add: length_elems)
  with False show ?thesis
    by (simp add: valid_slice_def slice_append_def Let_def)
qed

lemma slice_append_elems:
  assumes "valid_slice h s"
  shows "elems (snd (slice_append rt h s x)) (fst (slice_append rt h s x)) = elems h s @ [x]"
proof (cases "len s < cap s")
  case True
  with assms have a: "arr s < length (arrays h)"
    and b: "off s + len s < length (arrays h ! arr s)"
    by (auto simp add: valid_slice_def)
  show ?thesis
    using True a b by (simp add: slice_append_def elems_def take_drop_update_end)
next
  case False
  with assms have "length (elems h s) = len s"
    by (simp add: length_elems)
  with False show ?thesis
    by (simp add: slice_append_def Let_def elems_def)
qed

lemma slice_append_keeps_valid:
  assumes "valid_slice h t"
  shows "valid_slice (snd (slice_append rt h s x)) t"
proof (cases "len s < cap s")
  case True
  with assms show ?thesis
    by (auto simp add: valid_slice_def slice_append_def length_nth_update_cell)
next
  case False
  with assms show ?thesis
    by (auto simp add: valid_slice_def slice_append_def Let_def nth_append)
qed

lemma slice_append_frame:
  assumes "valid_slice h t" and "\<not> writes_into s t"
  shows "elems (snd (slice_append rt h s x)) t = elems h t"
proof (cases "len t = 0")
  case True
  then show ?thesis by (simp add: elems_def)
next
  case nonempty: False
  with assms(1) have t: "arr t < length (arrays h)"
    by (auto simp add: valid_slice_def)
  show ?thesis
  proof (cases "len s < cap s")
    case True
    show ?thesis
    proof (cases "arr s = arr t")
      case same: True
      with assms(2) True nonempty
      have "off s + len s < off t \<or> off t + len t \<le> off s + len s"
        by (auto simp add: writes_into_def)
      then show ?thesis
        using True same t
        by (simp add: slice_append_def elems_def take_drop_update_outside)
    next
      case False
      then show ?thesis
        using True t by (simp add: slice_append_def elems_def)
    qed
  next
    case False
    then show ?thesis
      using t by (simp add: slice_append_def Let_def elems_def nth_append)
  qed
qed

lemma slice_append_no_new_overlap:
  assumes "valid_slice h t" and "\<not> writes_into s t"
  shows "\<not> writes_into (fst (slice_append rt h s x)) t"
proof (cases "len s < cap s")
  case True
  with assms(2) show ?thesis
    by (auto simp add: writes_into_def slice_append_def)
next
  case False
  with assms(1) show ?thesis
    by (auto simp add: writes_into_def slice_append_def Let_def valid_slice_def)
qed

subsection \<open>The loop of the returned function\<close>

lemma WithMiddleware_loop_done:
  "len ms \<le> idx \<Longrightarrow> WithMiddleware_loop rt idx ms p h = Inr h"
  by (simp add: WithMiddleware_loop.simps)

lemma WithMiddleware_loop_step:
  assumes "idx < len ms" and "instances h a = Some opts" and "valid_slice h ms"
  shows "WithMiddleware_loop rt idx ms (Ptr a) h =
     WithMiddleware_loop rt (Suc idx) ms (Ptr a)
       (snd (slice_append rt h (middlewares opts) (elems h ms ! idx))
          \<lparr>instances := (instances h)(a \<mapsto>
             opts\<lparr>middlewares :=
               fst (slice_append rt h (middlewares opts) (elems h ms ! idx))\<rparr>)\<rparr>)"
  using assms
  by (subst WithMiddleware_loop.simps)
    (simp add: slice_index_elems case_prod_beta slice_append_instances)

lemma WithMiddleware_loop_run:
  assumes "instances h a = Some opts" and "valid_slice h (middlewares opts)"
    and "valid_slice h ms" and "idx \<le> len ms"
  shows "\<exists>h' s' xs.
     WithMiddleware_loop rt idx ms (Ptr a) h = Inr h' \<and>
     instances h' = (instances h)(a \<mapsto> opts\<lparr>middlewares := s'\<rparr>) \<and>
     valid_slice h' s' \<and>
     elems h' s' = elems h (middlewares opts) @ xs \<and>
     length xs = len ms - idx \<and>
     (\<not> writes_into (middlewares opts) ms \<longrightarrow> xs = drop idx (elems h ms)) \<and>
     (\<forall>t. valid_slice h t \<longrightarrow> valid_slice h' t) \<and>
     (\<forall>t. valid_slice h t \<and> \<not> writes_into (middlewares opts) t \<longrightarrow>
        elems h' t = elems h t \<and> \<not> writes_into s' t)"
  using assms
proof (induction "len ms - idx" arbitrary: idx h opts)
  case 0
  then have "WithMiddleware_loop rt idx ms (Ptr a) h = Inr h"
    by (simp add: WithMiddleware_loop_done)
  moreover have "instances h = (instances h)(a \<mapsto> opts\<lparr>middlewares := middlewares opts\<rparr>)"
    using "0.prems"(1) by (simp add: fun_upd_idem)
  moreover have "len ms - idx = 0" "drop idx (elems h ms) = []"
    using "0.hyps" "0.prems"(3,4) by (simp_all add: length_elems)
  ultimately show ?case
    using "0.prems"(2) by (intro exI[of _ h] exI[of _ "middlewares opts"] exI[of _ "[]"]) simp
next
  case (Suc n)
  then have lt: "idx < len ms" by simp
  let ?s = "middlewares opts"
  let ?m = "elems h ms ! idx"
  let ?s1 = "fst (slice_append rt h ?s ?m)"
  let ?g = "snd (slice_append rt h ?s ?m)"
  let ?opts1 = "opts\<lparr>middlewares := ?s1\<rparr>"
  let ?h1 = "?g\<lparr>instances := (instances h)(a \<mapsto> ?opts1)\<rparr>"
  have step: "WithMiddleware_loop rt idx ms (Ptr a) h = WithMiddleware_loop rt (Suc idx) ms (Ptr a) ?h1"
    using lt Suc.prems(1,3) by (rule WithMiddleware_loop_step)
  have v1: "valid_slice ?h1 (middlewares ?opts1)"
    using Suc.prems(2) by (simp add: slice_append_valid)
  have vms: "valid_slice ?h1 ms"
    using Suc.prems(3) by (simp add: slice_append_keeps_valid)
  have e1: "elems ?h1 ?s1 = elems h ?s @ [?m]"
    using Suc.prems(2) by (simp add: slice_append_elems)
  have "n = len ms - Suc idx" using Suc.hyps(2) by simp
  from Suc.hyps(1)[OF this _ v1 vms, of ]
  obtain h' s' xs where run:
    "WithMiddleware_loop rt (Suc idx) ms (Ptr a) ?h1 = Inr h'"
    "instances h' = (instances ?h1)(a \<mapsto> ?opts1\<lparr>middlewares := s'\<rparr>)"
    "valid_slice h' s'"
    "elems h' s' = elems ?h1 (middlewares ?opts1) @ xs"
    "length xs = len ms - Suc idx"
    "\<not> writes_into (middlewares ?opts1) ms \<longrightarrow> xs = drop (Suc idx) (elems ?h1 ms)"
    "\<forall>t. valid_slice ?h1 t \<longrightarrow> valid_slice h' t"
    "\<forall>t. valid_slice ?h1 t \<and> \<not> writes_into (middlewares ?opts1) t \<longrightarrow>
        elems h' t = elems ?h1 t \<and> \<not> writes_into s' t"
    using lt by auto
  have "WithMiddleware_loop rt idx ms (Ptr a) h = Inr h'"
    using step run(1) by simp
  moreover have "instances h' = (instances h)(a \<mapsto> opts\<lparr>middlewares := s'\<rparr>)"
    using run(2) by simp
  moreover have "elems h' s' = elems h ?s @ (?m # xs)"
    using run(4) e1 by simp
  moreover have "length (?m # xs) = len ms - idx"
    using run(5) lt by simp
  moreover have "?m # xs = drop idx (elems h ms)" if "\<not> writes_into ?s ms"
  proof -
    have "elems ?h1 ms = elems h ms" and "\<not> writes_into ?s1 ms"
      using Suc.prems(3) that
      by (simp_all add: slice_append_frame slice_append_no_new_overlap)
    with run(6) have "xs = drop (Suc idx) (elems h ms)" by simp
    moreover have "idx < length (elems h ms)"
      using lt Suc.prems(3) by (simp add: length_elems)
    ultimately show ?thesis by (simp add: Cons_nth_drop_Suc)
  qed
  moreover have "valid_slice h' t" if "valid_slice h t" for t
    using that run(7) by (simp add: slice_append_keeps_valid)
  moreover have "elems h' t = elems h t \<and> \<not> writes_into s' t"
    if "valid_slice h t" and "\<not> writes_into ?s t" for t
  proof -
    have "valid_slice ?h1 t" and "elems ?h1 t = elems h t" and "\<not> writes_into ?s1 t"
      using that
      by (simp_all add: slice_append_keeps_valid slice_append_frame slice_append_no_new_overlap)
    with run(8) show ?thesis by auto
  qed
  ultimately show ?case
    using run(3) by (intro exI[of _ h'] exI[of _ s'] exI[of _ "?m # xs"]) blast
qed

lemma WithMiddleware_func_run:
  assumes "instances h a = Some opts" and "valid_slice h (middlewares opts)"
    and "valid_slice h ms"
  shows "\<exists>h' s' xs.
     WithMiddleware_func rt ms (Ptr a) h = Inr h' \<and>
     instances h' = (instances h)(a \<mapsto> opts\<lparr>middlewares := s'\<rparr>) \<and>
     valid_slice h' s' \<and>
     elems h' s' = elems h (middlewares opts) @ xs \<and>
     length xs = len ms \<and>
     (\<not> writes_into (middlewares opts) ms \<longrightarrow> xs = elems h ms) \<and>
     (\<forall>t. valid_slice h t \<longrightarrow> valid_slice h' t) \<and>
     (\<forall>t. valid_slice h t \<and> \<not> writes_into (middlewares opts) t \<longrightarrow>
        elems h' t = elems h t \<and> \<not> writes_into s' t)"
  using WithMiddleware_loop_run[OF assms, of 0 rt] by (simp add: WithMiddleware_func_def)

lemma WithMiddleware_func_empty: "len ms = 0 \<Longrightarrow> WithMiddleware_func rt ms p h = Inr h"
  by (simp add: WithMiddleware_func_def WithMiddleware_loop_done)

lemma WithMiddleware_func_nil:
  "0 < len ms \<Longrightarrow> WithMiddleware_func rt ms NilPtr h = Inl NilPointerDereference"
  by (simp add: WithMiddleware_func_def WithMiddleware_loop.simps)

lemma fst_WithMiddleware: "fst (WithMiddleware rt ms h0) = WithMiddleware_func rt ms"
  by (simp add: WithMiddleware_def)

subsection \<open>Applying several option functions in sequence\<close>

lemma apply_in_order_run:
  assumes "instances h a = Some opts" and "valid_slice h (middlewares opts)"
    and "\<forall>t\<in>set batches. valid_slice h t"
  shows "\<exists>h' s' xs.
     apply_in_order (map (WithMiddleware_func rt) batches) (Ptr a) h = Inr h' \<and>
     instances h' = (instances h)(a \<mapsto> opts\<lparr>middlewares := s'\<rparr>) \<and>
     valid_slice h' s' \<and>
     elems h' s' = elems h (middlewares opts) @ xs \<and>
     length xs = sum_list (map len batches) \<and>
     ((\<forall>t\<in>set batches. \<not> writes_into (middlewares opts) t) \<longrightarrow>
        xs = concat (map (elems h) batches)) \<and>
     (\<forall>t. valid_slice h t \<longrightarrow> valid_slice h' t) \<and>
     (\<forall>t. valid_slice h t \<and> \<not> writes_into (middlewares opts) t \<longrightarrow>
        elems h' t = elems h t \<and> \<not> writes_into s' t)"
  using assms
proof (induction batches arbitrary: h opts)
  case Nil
  have "instances h = (instances h)(a \<mapsto> opts\<lparr>middlewares := middlewares opts\<rparr>)"
    using Nil.prems(1) by (simp add: fun_upd_idem)
  then show ?case
    using Nil.prems(2) by (intro exI[of _ h] exI[of _ "middlewares opts"] exI[of _ "[]"]) simp
next
  case (Cons ms batches)
  let ?s = "middlewares opts"
  have vms: "valid_slice h ms" using Cons.prems(3) by simp
  from WithMiddleware_func_run[OF Cons.prems(1,2) vms, of rt]
  obtain h1 s1 xs1 where one:
    "WithMiddleware_func rt ms (Ptr a) h = Inr h1"
    "instances h1 = (instances h)(a \<mapsto> opts\<lparr>middlewares := s1\<rparr>)"
    "valid_slice h1 s1"
    "elems h1 s1 = elems h ?s @ xs1"
    "length xs1 = len ms"
    "\<not> writes_into ?s ms \<longrightarrow> xs1 = elems h ms"
    "\<forall>t. valid_slice h t \<longrightarrow> valid_slice h1 t"
    "\<forall>t. valid_slice h t \<and> \<not> writes_into ?s t \<longrightarrow>
        elems h1 t = elems h t \<and> \<not> writes_into s1 t"
    by blast
  let ?opts1 = "opts\<lparr>middlewares := s1\<rparr>"
  have i1: "instances h1 a = Some ?opts1" using one(2) by simp
  have v1: "valid_slice h1 (middlewares ?opts1)" using one(3) by simp
  have vb: "\<forall>t\<in>set batches. valid_slice h1 t" using Cons.prems(3) one(7) by simp
  from Cons.IH[OF i1 v1 vb]
  obtain h' s' xs where rest:
    "apply_in_order (map (WithMiddleware_func rt) batches) (Ptr a) h1 = Inr h'"
    "instances h' = (instances h1)(a \<mapsto> ?opts1\<lparr>middlewares := s'\<rparr>)"
    "valid_slice h' s'"
    "elems h' s' = elems h1 (middlewares ?opts1) @ xs"
    "length xs = sum_list (map len batches)"
    "(\<forall>t\<in>set batches. \<not> writes_into (middlewares ?opts1) t) \<longrightarrow>
        xs = concat (map (elems h1) batches)"
    "\<forall>t. valid_slice h1 t \<longrightarrow> valid_slice h' t"
    "\<forall>t. valid_slice h1 t \<and> \<not> writes_into (middlewares ?opts1) t \<longrightarrow>
        elems h' t = elems h1 t \<and> \<not> writes_into s' t"
    by blast
  have "apply_in_order (map (WithMiddleware_func rt) (ms # batches)) (Ptr a) h = Inr h'"
    using one(1) rest(1) by simp
  moreover have "instances h' = (instances h)(a \<mapsto> opts\<lparr>middlewares := s'\<rparr>)"
    using one(2) rest(2) by simp
  moreover have "elems h' s' = elems h ?s @ (xs1 @ xs)"
    using one(4) rest(4) by simp
  moreover have "length (xs1 @ xs) = sum_list (map len (ms # batches))"
    using one(5) rest(5) by simp
  moreover have "xs1 @ xs = concat (map (elems h) (ms # batches))"
    if clear: "\<forall>t\<in>set (ms # batches). \<not> writes_into ?s t"
  proof -
    have "xs1 = elems h ms" using one(6) clear by simp
    moreover have "\<forall>t\<in>set batches. elems h1 t = elems h t \<and> \<not> writes_into s1 t"
      using one(8) Cons.prems(3) clear by simp
    then have "xs = concat (map (elems h1) batches)" and "map (elems h1) batches = map (elems h) batches"
      using rest(6) by simp_all
    ultimately show ?thesis by simp
  qed
  moreover have "\<forall>t. valid_slice h t \<longrightarrow> valid_slice h' t"
    using one(7) rest(7) by blast
  moreover have "\<forall>t. valid_slice h t \<and> \<not> writes_into ?s t \<longrightarrow>
        elems h' t = elems h t \<and> \<not> writes_into s' t"
  proof (intro allI impI)
    fix t assume t: "valid_slice h t \<and> \<not> writes_into ?s t"
    with one(7,8) have "valid_slice h1 t" "elems h1 t = elems h t" "\<not> writes_into s1 t"
      by simp_all
    with rest(8) show "elems h' t = elems h t \<and> \<not> writes_into s' t" by simp
  qed
  ultimately show ?case
    using rest(3) by (intro exI[of _ h'] exI[of _ s'] exI[of _ "xs1 @ xs"]) blast
qed

subsection \<open>Calls with explicit arguments\<close>

lemma variadic_instances: "instances (snd (variadic xs h)) = instances h"
  by (simp add: variadic_def)

lemma variadic_valid: "valid_slice (snd (variadic xs h)) (fst (variadic xs h))"
  by (simp add: variadic_def valid_slice_def nil_slice_def)

lemma variadic_elems: "elems (snd (variadic xs h)) (fst (variadic xs h)) = xs"
  by (simp add: variadic_def elems_def nil_slice_def)

lemma variadic_keeps_valid: "valid_slice h t \<Longrightarrow> valid_slice (snd (variadic xs h)) t"
  by (auto simp add: variadic_def valid_slice_def nth_append)

lemma variadic_keeps_elems: "valid_slice h t \<Longrightarrow> elems (snd (variadic xs h)) t = elems h t"
  by (cases "len t = 0") (auto simp add: variadic_def valid_slice_def elems_def nth_append)

lemma variadic_fresh: "valid_slice h t \<Longrightarrow> \<not> writes_into t (fst (variadic xs h))"
  by (auto simp add: variadic_def valid_slice_def writes_into_def nil_slice_def)

lemma fst_WithMiddleware_args:
  "fst (WithMiddleware_args rt xs h) = WithMiddleware_func rt (fst (variadic xs h))"
  by (simp add: WithMiddleware_args_def WithMiddleware_def case_prod_beta)

lemma snd_WithMiddleware_args: "snd (WithMiddleware_args rt xs h) = snd (variadic xs h)"
  by (simp add: WithMiddleware_args_def WithMiddleware_def case_prod_beta)

lemma WithMiddleware_args_run:
  assumes "instances h a = Some opts" and "valid_slice h (middlewares opts)"
  shows "\<exists>h' opts'.
     fst (WithMiddleware_args rt xs h) (Ptr a) (snd (WithMiddleware_args rt xs h)) = Inr h' \<and>
     instances h' a = Some opts' \<and> sequence h' opts' = sequence h opts @ xs"
proof -
  let ?s = "fst (variadic xs h)" and ?h1 = "snd (variadic xs h)"
  have live: "instances ?h1 a = Some opts"
    using assms(1) by (simp add: variadic_instances)
  have v: "valid_slice ?h1 (middlewares opts)"
    using assms(2) by (rule variadic_keeps_valid)
  from WithMiddleware_func_run[OF live v variadic_valid[of xs h], of rt]
  obtain h' s' ys where run:
    "WithMiddleware_func rt ?s (Ptr a) ?h1 = Inr h'"
    "instances h' = (instances ?h1)(a \<mapsto> opts\<lparr>middlewares := s'\<rparr>)"
    "elems h' s' = elems ?h1 (middlewares opts) @ ys"
    "\<not> writes_into (middlewares opts) ?s \<longrightarrow> ys = elems ?h1 ?s"
    by blast
  have "ys = xs"
    using run(4) assms(2) by (simp add: variadic_fresh variadic_elems)
  then have "sequence h' (opts\<lparr>middlewares := s'\<rparr>) = sequence h opts @ xs"
    using run(3) assms(2) by (simp add: sequence_def variadic_keeps_elems)
  then show ?thesis
    using run(1,2)
    by (intro exI[of _ h'] exI[of _ "opts\<lparr>middlewares := s'\<rparr>"])
      (simp add: fst_WithMiddleware_args snd_WithMiddleware_args)
qed

lemma apply_in_order_sequence:
  assumes "instances h a = Some opts" and "valid_slice h (middlewares opts)"
    and "\<forall>t\<in>set batches. valid_slice h t \<and> \<not> writes_into (middlewares opts) t"
  shows "\<exists>h' opts'.
     apply_in_order (map (\<lambda>ms. fst (WithMiddleware rt ms h0)) batches) (Ptr a) h = Inr h' \<and>
     instances h' a = Some opts' \<and>
     sequence h' opts' = sequence h opts @ concat (map (elems h) batches)"
proof -
  have vb: "\<forall>t\<in>set batches. valid_slice h t"
    and clear: "\<forall>t\<in>set batches. \<not> writes_into (middlewares opts) t"
    using assms(3) by simp_all
  from apply_in_order_run[OF assms(1,2) vb, of rt]
  obtain h' s' xs where
    "apply_in_order (map (WithMiddleware_func rt) batches) (Ptr a) h = Inr h'"
    "instances h' = (instances h)(a \<mapsto> opts\<lparr>middlewares := s'\<rparr>)"
    "elems h' s' = elems h (middlewares opts) @ xs"
    "(\<forall>t\<in>set batches. \<not> writes_into (middlewares opts) t) \<longrightarrow>
        xs = concat (map (elems h) batches)"
    by blast
  moreover have "(\<lambda>ms. fst (WithMiddleware rt ms h0)) = WithMiddleware_func rt"
    by (simp add: fst_WithMiddleware fun_eq_iff)
  ultimately show ?thesis
    using clear
    by (intro exI[of _ h'] exI[of _ "opts\<lparr>middlewares := s'\<rparr>"]) (simp add: sequence_def)
qed

subsection \<open>The evaluation loop\<close>

lemma evaluate_from_passed:
  "(fst (evaluate_from i ms v) = Passed) = list_all (\<lambda>m. m v) ms"
  by (induction ms arbitrary: i) (simp_all add: case_prod_beta)

lemma evaluate_from_trace:
  "snd (evaluate_from i ms v) =
     [i ..< i + min (Suc (length (takeWhile (\<lambda>m. m v) ms))) (length ms)]"
proof (induction ms arbitrary: i)
  case Nil
  then show ?case by simp
next
  case (Cons m ms)
  define k where "k = min (Suc (length (takeWhile (\<lambda>m. m v) ms))) (length ms)"
  show ?case
  proof (cases "m v")
    case True
    have "min (Suc (length (takeWhile (\<lambda>m. m v) (m # ms)))) (length (m # ms)) = Suc k"
      using True by (simp add: k_def)
    moreover have "snd (evaluate_from i (m # ms) v) = i # snd (evaluate_from (Suc i) ms v)"
      using True by (simp add: case_prod_beta)
    moreover have "snd (evaluate_from (Suc i) ms v) = [Suc i ..< Suc i + k]"
      unfolding k_def by (rule Cons.IH)
    moreover have "i # [Suc i ..< Suc i + k] = [i ..< i + Suc k]"
      by (simp add: upt_conv_Cons)
    ultimately show ?thesis
      by (simp only:)
  next
    case False
    then show ?thesis by (simp add: upt_conv_Cons)
  qed
qed

lemma takeWhile_before_false:
  assumes "i < length ms" and "\<not> (ms ! i) v"
  shows "length (takeWhile (\<lambda>m. m v) ms) \<le> i"
proof (rule ccontr)
  assume "\<not> ?thesis"
  then have lt: "i < length (takeWhile (\<lambda>m. m v) ms)" by simp
  then have "takeWhile (\<lambda>m. m v) ms ! i \<in> set (takeWhile (\<lambda>m. m v) ms)"
    by (rule nth_mem)
  then have "(takeWhile (\<lambda>m. m v) ms ! i) v"
    by (rule set_takeWhileD[THEN conjunct2])
  moreover have "takeWhile (\<lambda>m. m v) ms ! i = ms ! i"
    using lt by (rule takeWhile_nth)
  ultimately show False using assms(2) by simp
qed

lemma takeWhile_first_false:
  assumes "i < length ms" and "\<not> (ms ! i) v" and "\<forall>k<i. (ms ! k) v"
  shows "length (takeWhile (\<lambda>m. m v) ms) = i"
proof (rule antisym)
  show "length (takeWhile (\<lambda>m. m v) ms) \<le> i"
    using assms(1,2) by (rule takeWhile_before_false)
  show "i \<le> length (takeWhile (\<lambda>m. m v) ms)"
    using assms(1,3) by (intro length_takeWhile_less_P_nth) simp_all
qed

lemma evaluate_trace_upt:
  "snd (evaluate h opts v) = [0 ..< length (snd (evaluate h opts v))]"
  by (simp add: evaluate_def evaluate_from_trace)

lemma evaluate_trace_length:
  "length (snd (evaluate h opts v)) \<le> length (sequence h opts)"
  by (simp add: evaluate_def evaluate_from_trace)

lemma invoked_take:
  "invoked h opts v = take (length (snd (evaluate h opts v))) (sequence h opts)"
proof -
  have "invoked h opts v =
      map (\<lambda>i. sequence h opts ! i) [0 ..< length (snd (evaluate h opts v))]"
    unfolding invoked_def using evaluate_trace_upt[of h opts v] by simp
  also have "\<dots> = take (length (snd (evaluate h opts v))) (sequence h opts)"
    using evaluate_trace_length[of h opts v] by (intro nth_equalityI) simp_all
  finally show ?thesis .
qed

lemma evaluate_passed_trace:
  "fst (evaluate h opts v) = Passed \<Longrightarrow>
   snd (evaluate h opts v) = [0 ..< length (sequence h opts)]"
proof -
  assume "fst (evaluate h opts v) = Passed"
  then have "list_all (\<lambda>m. m v) (sequence h opts)"
    by (simp add: evaluate_def evaluate_from_passed)
  then have "takeWhile (\<lambda>m. m v) (sequence h opts) = sequence h opts"
    by (simp add: list_all_iff)
  then have "length (takeWhile (\<lambda>m. m v) (sequence h opts)) = length (sequence h opts)"
    by (simp only:)
  then show ?thesis
    by (simp add: evaluate_def evaluate_from_trace)
qed

lemma evaluate_rejected_at:
  assumes "i < length (sequence h opts)" and "\<not> (sequence h opts ! i) v"
  shows "fst (evaluate h opts v) = Rejected"
    and "\<forall>j\<in>set (snd (evaluate h opts v)). j \<le> i"
proof -
  have "\<not> list_all (\<lambda>m. m v) (sequence h opts)"
    using assms by (auto simp add: list_all_length)
  then have "fst (evaluate h opts v) \<noteq> Passed"
    by (simp add: evaluate_def evaluate_from_passed)
  then show "fst (evaluate h opts v) = Rejected"
    by (cases "fst (evaluate h opts v)") simp_all
  have "length (takeWhile (\<lambda>m. m v) (sequence h opts)) \<le> i"
    using assms by (rule takeWhile_before_false)
  then show "\<forall>j\<in>set (snd (evaluate h opts v)). j \<le> i"
    by (auto simp add: evaluate_def evaluate_from_trace)
qed

lemma evaluate_first_rejection:
  assumes "i < length (sequence h opts)" and "\<not> (sequence h opts ! i) v"
    and "\<forall>k<i. (sequence h opts ! k) v"
  shows "snd (evaluate h opts v) = [0 ..< Suc i]"
proof -
  have "length (takeWhile (\<lambda>m. m v) (sequence h opts)) = i"
    using assms by (rule takeWhile_first_false)
  then show ?thesis
    using assms(1) by (simp add: evaluate_def evaluate_from_trace min_def)
qed

lemma invoked_passed:
  "fst (evaluate h opts v) = Passed \<Longrightarrow> invoked h opts v = sequence h opts"
  using invoked_take[of h opts v] evaluate_passed_trace[of h opts v] by simp

lemma invoked_first_rejection:
  assumes "i < length (sequence h opts)" and "\<not> (sequence h opts ! i) v"
    and "\<forall>k<i. (sequence h opts ! k) v"
  shows "invoked h opts v = take (Suc i) (sequence h opts)"
  using invoked_take[of h opts v] evaluate_first_rejection[OF assms] by simp

subsection \<open>The example inputs\<close>

lemma isPositive_neq_isEven: "isPositive \<noteq> isEven"
proof
  assume "isPositive = isEven"
  then have "isPositive 1 = isEven 1" by simp
  then show False by (simp add: isPositive_def isEven_def)
qed

lemmas run_defs = WithMiddleware_def WithMiddleware_func_def WithMiddleware_loop.simps
  WithMiddleware_args_def variadic_def slice_index_def slice_append_def slice_assign_def
  elems_def sequence_def sequence_after_def valid_slice_def writes_into_def nil_slice_def
  first_slice_def second_slice_def pair_slice_def whole_slice_def twice_slice_def rt0_def
  Let_def eval_nat_numeral

section \<open>The claims\<close>

text \<open>
  The theorems about registration are stated for the heaps a Go program can reach: the
  slice of the instance and the batch are valid. They hold for every run-time parameter
  \<open>rt\<close>. The heap \<open>h0\<close> is the one in which \<^verbatim>\<open>WithMiddleware\<close> is called, the heap \<open>h\<close>
  the one in which the returned function is applied; between the two the program may
  have done anything.
\<close>

subsection \<open>Evaluation\<close>

text \<open>
  Claim C1. For every middleware sequence and every value, evaluation returns
  \<open>Passed\<close> if and only if every middleware accepts the value; and if the middleware
  at some position \<open>i\<close> rejects it, evaluation returns \<open>Rejected\<close> and no middleware
  at a position after \<open>i\<close> is invoked. When \<open>i\<close> is the first rejecting position, the
  positions invoked are exactly \<open>0, ..., i\<close>, in registration order.
\<close>

theorem evaluate_all_must_pass:
  "(fst (evaluate h opts v) = Passed) = (\<forall>m\<in>set (sequence h opts). m v) \<and>
   (i < length (sequence h opts) \<and> \<not> (sequence h opts ! i) v \<longrightarrow>
      fst (evaluate h opts v) = Rejected \<and> (\<forall>j\<in>set (snd (evaluate h opts v)). j \<le> i)) \<and>
   (i < length (sequence h opts) \<and> \<not> (sequence h opts ! i) v \<and>
      (\<forall>k<i. (sequence h opts ! k) v) \<longrightarrow> snd (evaluate h opts v) = [0 ..< Suc i])"
proof (intro conjI impI)
  show "(fst (evaluate h opts v) = Passed) = (\<forall>m\<in>set (sequence h opts). m v)"
    by (simp add: evaluate_def evaluate_from_passed list_all_iff)
next
  assume "i < length (sequence h opts) \<and> \<not> (sequence h opts ! i) v"
  then show "fst (evaluate h opts v) = Rejected"
    using evaluate_rejected_at(1)[of i h opts v] by simp
next
  assume "i < length (sequence h opts) \<and> \<not> (sequence h opts ! i) v"
  then show "\<forall>j\<in>set (snd (evaluate h opts v)). j \<le> i"
    using evaluate_rejected_at(2)[of i h opts v] by simp
next
  assume "i < length (sequence h opts) \<and> \<not> (sequence h opts ! i) v \<and>
      (\<forall>k<i. (sequence h opts ! k) v)"
  then show "snd (evaluate h opts v) = [0 ..< Suc i]"
    using evaluate_first_rejection[of i h opts v] by simp
qed

theorem evaluate_all_must_pass_witness:
  "evaluate even_positive_heap \<lparr>middlewares = pair_slice\<rparr> 4 = (Passed, [0, 1]) \<and>
   evaluate even_positive_heap \<lparr>middlewares = pair_slice\<rparr> (- 4) = (Rejected, [0, 1]) \<and>
   evaluate even_positive_heap \<lparr>middlewares = pair_slice\<rparr> 3 = (Rejected, [0])"
proof -
  let ?opts = "\<lparr>middlewares = pair_slice\<rparr>"
  have ms: "sequence even_positive_heap ?opts = [isEven, isPositive]"
    by (simp add: run_defs even_positive_heap_def)
  have "fst (evaluate even_positive_heap ?opts 4) = Passed"
    using evaluate_all_must_pass[of even_positive_heap ?opts 4 0]
    by (simp add: ms isEven_def isPositive_def)
  moreover have "snd (evaluate even_positive_heap ?opts 4) = [0, 1]"
    using evaluate_passed_trace[OF calculation] by (simp add: ms upt_rec)
  moreover have "fst (evaluate even_positive_heap ?opts (- 4)) = Rejected \<and>
      snd (evaluate even_positive_heap ?opts (- 4)) = [0, 1]"
    using evaluate_all_must_pass[of even_positive_heap ?opts "- 4" 1]
    by (simp add: ms isEven_def isPositive_def upt_rec)
  moreover have "fst (evaluate even_positive_heap ?opts 3) = Rejected \<and>
      snd (evaluate even_positive_heap ?opts 3) = [0]"
    using evaluate_all_must_pass[of even_positive_heap ?opts 3 0]
    by (simp add: ms isEven_def isPositive_def)
  ultimately show ?thesis
    by (simp add: prod_eq_iff)
qed

text \<open>
  Claim C4. An options instance with an empty middleware sequence lets every value
  pass, and no middleware is invoked.
\<close>

theorem evaluate_empty_passes:
  "sequence h opts = [] \<Longrightarrow> evaluate h opts v = (Passed, [])"
  by (simp add: evaluate_def)

theorem evaluate_empty_passes_witness:
  "evaluate fresh_heap \<lparr>middlewares = nil_slice\<rparr> 5 = (Passed, [])"
  using evaluate_empty_passes[of fresh_heap "\<lparr>middlewares = nil_slice\<rparr>" 5]
  by (simp add: run_defs fresh_heap_def)

subsection \<open>Registration\<close>

text \<open>
  Claim C2, as stated, says that the returned function appends the middlewares that
  were passed to \<^verbatim>\<open>WithMiddleware\<close>. The function holds the caller's slice, not a copy,
  and reads it when it is applied: after \<^verbatim>\<open>s := []Middleware[int]{isEven};
  f := WithMiddleware(s...); s[0] = isPositive; f(o)\<close> the instance holds \<open>isPositive\<close>,
  not \<open>isEven\<close>. And when the batch lies in the spare capacity of the instance's own
  slice, the appends overwrite the batch while it is being read: with the batch
  \<open>[isEven, isPositive]\<close> the instance \<open>[isEven]\<close> becomes \<open>[isEven, isEven, isEven]\<close>.
\<close>

theorem batch_read_at_application:
  "elems fresh_heap first_slice = [isEven] \<and>
   slice_assign fresh_heap first_slice 0 isPositive = Inr mutated_heap \<and>
   sequence_after (fst (WithMiddleware rt0 first_slice fresh_heap) (Ptr 1) mutated_heap) 1 =
     Some [isPositive] \<and>
   [isPositive] \<noteq> [] @ [isEven] \<and>
   sequence_after (Inr aliased_heap) 1 = Some [isEven] \<and>
   elems aliased_heap whole_slice = [isEven, isPositive] \<and>
   sequence_after (fst (WithMiddleware rt0 whole_slice aliased_heap) (Ptr 1) aliased_heap) 1 =
     Some [isEven, isEven, isEven] \<and>
   [isEven, isEven, isEven] \<noteq> [isEven] @ [isEven, isPositive]"
  by (simp add: run_defs fresh_heap_def mutated_heap_def aliased_heap_def
      isPositive_neq_isEven isPositive_neq_isEven[symmetric])

text \<open>
  Claim C2, amended. The function returned by \<^verbatim>\<open>WithMiddleware(ms...)\<close>, applied to a live
  instance, appends \<open>len ms\<close> elements to the instance's middleware sequence. Unless an
  element of the batch lies in the spare capacity of the instance's slice, they are
  the elements the slice \<open>ms\<close> holds when the function is applied, in index order. For
  a call with explicit arguments, \<^verbatim>\<open>WithMiddleware(m1, ..., mn)\<close>, applied next, they are
  exactly the arguments, in the order they were passed.
\<close>

theorem WithMiddleware_appends_in_order:
  "instances h a = Some opts \<Longrightarrow> valid_slice h (middlewares opts) \<Longrightarrow> valid_slice h ms \<Longrightarrow>
   (\<exists>h' opts' xs. fst (WithMiddleware rt ms h0) (Ptr a) h = Inr h' \<and>
      instances h' a = Some opts' \<and>
      sequence h' opts' = sequence h opts @ xs \<and> length xs = len ms \<and>
      (\<not> writes_into (middlewares opts) ms \<longrightarrow> xs = elems h ms)) \<and>
   (\<exists>h' opts'.
      fst (WithMiddleware_args rt args h) (Ptr a) (snd (WithMiddleware_args rt args h)) =
        Inr h' \<and>
      instances h' a = Some opts' \<and> sequence h' opts' = sequence h opts @ args)"
proof
  assume live: "instances h a = Some opts" and v: "valid_slice h (middlewares opts)"
    and vms: "valid_slice h ms"
  from WithMiddleware_func_run[OF live v vms, of rt]
  obtain h' s' xs where
    "WithMiddleware_func rt ms (Ptr a) h = Inr h'"
    "instances h' = (instances h)(a \<mapsto> opts\<lparr>middlewares := s'\<rparr>)"
    "elems h' s' = elems h (middlewares opts) @ xs"
    "length xs = len ms"
    "\<not> writes_into (middlewares opts) ms \<longrightarrow> xs = elems h ms"
    by blast
  then show "\<exists>h' opts' xs. fst (WithMiddleware rt ms h0) (Ptr a) h = Inr h' \<and>
      instances h' a = Some opts' \<and>
      sequence h' opts' = sequence h opts @ xs \<and> length xs = len ms \<and>
      (\<not> writes_into (middlewares opts) ms \<longrightarrow> xs = elems h ms)"
    by (intro exI[of _ h'] exI[of _ "opts\<lparr>middlewares := s'\<rparr>"] exI[of _ xs])
      (simp add: fst_WithMiddleware sequence_def)
  show "\<exists>h' opts'.
      fst (WithMiddleware_args rt args h) (Ptr a) (snd (WithMiddleware_args rt args h)) =
        Inr h' \<and>
      instances h' a = Some opts' \<and> sequence h' opts' = sequence h opts @ args"
    using live v by (rule WithMiddleware_args_run)
qed

theorem WithMiddleware_appends_in_order_witness:
  "(\<exists>h' opts'. fst (WithMiddleware rt0 first_slice fresh_heap) (Ptr 1) mutated_heap = Inr h' \<and>
      instances h' 1 = Some opts' \<and> sequence h' opts' = [isPositive]) \<and>
   (\<exists>h' opts'.
      fst (WithMiddleware_args rt0 [isPositive, isEven] fresh_heap) (Ptr 1)
        (snd (WithMiddleware_args rt0 [isPositive, isEven] fresh_heap)) = Inr h' \<and>
      instances h' 1 = Some opts' \<and> sequence h' opts' = [isPositive, isEven])"
proof -
  have live: "instances mutated_heap 1 = Some \<lparr>middlewares = nil_slice\<rparr>"
    and live0: "instances fresh_heap 1 = Some \<lparr>middlewares = nil_slice\<rparr>"
    by (simp_all add: mutated_heap_def fresh_heap_def)
  have v: "valid_slice mutated_heap (middlewares \<lparr>middlewares = nil_slice\<rparr>)"
    and v0: "valid_slice fresh_heap (middlewares \<lparr>middlewares = nil_slice\<rparr>)"
    and vms: "valid_slice mutated_heap first_slice"
    and vms0: "valid_slice fresh_heap first_slice"
    by (simp_all add: run_defs mutated_heap_def fresh_heap_def)
  have clear: "\<not> writes_into (middlewares \<lparr>middlewares = nil_slice\<rparr>) first_slice"
    by (simp add: run_defs)
  have e: "elems mutated_heap first_slice = [isPositive]"
    "sequence mutated_heap \<lparr>middlewares = nil_slice\<rparr> = []"
    "sequence fresh_heap \<lparr>middlewares = nil_slice\<rparr> = []"
    by (simp_all add: run_defs mutated_heap_def fresh_heap_def)
  from WithMiddleware_appends_in_order[OF live v vms, of rt0 fresh_heap "[]", THEN conjunct1]
    WithMiddleware_appends_in_order
      [OF live0 v0 vms0, of rt0 fresh_heap "[isPositive, isEven]", THEN conjunct2]
    clear
  show ?thesis unfolding e by auto
qed

text \<open>
  Claim C3, as stated, says that sequential application concatenates the batches that
  were passed. The batches are read when the functions are applied: with the slices
  \<open>[isEven, isPositive]\<close> and \<open>[isEven]\<close> passed, and the second one changed to
  \<open>[isPositive]\<close> before the functions are applied to an empty instance, the result is
  \<open>[isEven, isPositive, isPositive]\<close>.
\<close>

theorem batches_read_at_application:
  "elems batches_heap pair_slice = [isEven, isPositive] \<and>
   elems batches_heap second_slice = [isEven] \<and>
   sequence_after (Inr batches_heap) 1 = Some [] \<and>
   slice_assign batches_heap second_slice 0 isPositive = Inr batches_mutated_heap \<and>
   sequence_after
     (apply_in_order
        [fst (WithMiddleware rt0 pair_slice batches_heap),
         fst (WithMiddleware rt0 second_slice batches_heap)] (Ptr 1) batches_mutated_heap) 1 =
     Some [isEven, isPositive, isPositive] \<and>
   [isEven, isPositive, isPositive] \<noteq> [isEven, isPositive] @ [isEven]"
  by (simp add: run_defs batches_heap_def batches_mutated_heap_def isPositive_neq_isEven)

text \<open>
  Claim C3, amended. Applying the functions returned for a list of batch slices one
  after the other to the same live instance appends, in application order, the elements
  the slices hold at that time, provided no element of a batch lies in the spare
  capacity of the instance's slice. In particular the calls with explicit arguments
  \<^verbatim>\<open>WithMiddleware(A, B)\<close> and then \<^verbatim>\<open>WithMiddleware(C)\<close>, applied in this order to an
  instance whose sequence is empty, give the sequence \<open>[A, B, C]\<close>.
\<close>

theorem WithMiddleware_concatenation:
  "instances h a = Some opts \<Longrightarrow> valid_slice h (middlewares opts) \<Longrightarrow>
   \<forall>t\<in>set batches. valid_slice h t \<and> \<not> writes_into (middlewares opts) t \<Longrightarrow>
   (\<exists>h' opts'.
      apply_in_order (map (\<lambda>ms. fst (WithMiddleware rt ms h0)) batches) (Ptr a) h = Inr h' \<and>
      instances h' a = Some opts' \<and>
      sequence h' opts' = sequence h opts @ concat (map (elems h) batches)) \<and>
   (sequence h opts = [] \<longrightarrow>
      (\<exists>h' opts'.
         apply_in_order
           [fst (WithMiddleware_args rt [A, B] h),
            fst (WithMiddleware_args rt [C] (snd (WithMiddleware_args rt [A, B] h)))]
           (Ptr a) (snd (WithMiddleware_args rt [C] (snd (WithMiddleware_args rt [A, B] h)))) =
           Inr h' \<and>
         instances h' a = Some opts' \<and> sequence h' opts' = [A, B, C]))"
proof (intro conjI impI)
  assume live: "instances h a = Some opts" and v: "valid_slice h (middlewares opts)"
    and b: "\<forall>t\<in>set batches. valid_slice h t \<and> \<not> writes_into (middlewares opts) t"
  show "\<exists>h' opts'.
      apply_in_order (map (\<lambda>ms. fst (WithMiddleware rt ms h0)) batches) (Ptr a) h = Inr h' \<and>
      instances h' a = Some opts' \<and>
      sequence h' opts' = sequence h opts @ concat (map (elems h) batches)"
    using live v b by (rule apply_in_order_sequence)
  assume empty: "sequence h opts = []"
  let ?s1 = "fst (variadic [A, B] h)" and ?h1 = "snd (variadic [A, B] h)"
  let ?s2 = "fst (variadic [C] ?h1)" and ?h2 = "snd (variadic [C] ?h1)"
  have live2: "instances ?h2 a = Some opts"
    using live by (simp add: variadic_instances)
  have v1: "valid_slice ?h1 (middlewares opts)"
    using v by (rule variadic_keeps_valid)
  then have v2: "valid_slice ?h2 (middlewares opts)"
    by (rule variadic_keeps_valid)
  have vs1: "valid_slice ?h1 ?s1" by (rule variadic_valid)
  have "valid_slice ?h2 ?s1" using vs1 by (rule variadic_keeps_valid)
  moreover have "valid_slice ?h2 ?s2" by (rule variadic_valid)
  moreover have "\<not> writes_into (middlewares opts) ?s1"
    using v by (rule variadic_fresh)
  moreover have "\<not> writes_into (middlewares opts) ?s2"
    using v1 by (rule variadic_fresh)
  ultimately have b2: "\<forall>t\<in>set [?s1, ?s2].
      valid_slice ?h2 t \<and> \<not> writes_into (middlewares opts) t"
    by simp
  have e1: "elems ?h2 ?s1 = [A, B]"
    using variadic_keeps_elems[OF vs1, of "[C]"] by (simp add: variadic_elems)
  have e2: "elems ?h2 ?s2 = [C]"
    by (rule variadic_elems)
  have e0: "sequence ?h2 opts = []"
    using empty v v1 by (simp add: sequence_def variadic_keeps_elems)
  from apply_in_order_sequence[OF live2 v2 b2, of rt h0]
  show "\<exists>h' opts'.
         apply_in_order
           [fst (WithMiddleware_args rt [A, B] h),
            fst (WithMiddleware_args rt [C] (snd (WithMiddleware_args rt [A, B] h)))]
           (Ptr a) (snd (WithMiddleware_args rt [C] (snd (WithMiddleware_args rt [A, B] h)))) =
           Inr h' \<and>
         instances h' a = Some opts' \<and> sequence h' opts' = [A, B, C]"
    by (simp add: fst_WithMiddleware_args snd_WithMiddleware_args fst_WithMiddleware e0 e1 e2)
qed

theorem WithMiddleware_concatenation_witness:
  "(\<exists>h' opts'.
      apply_in_order
        [fst (WithMiddleware rt0 pair_slice fresh_heap),
         fst (WithMiddleware rt0 second_slice fresh_heap)] (Ptr 1) batches_mutated_heap = Inr h' \<and>
      instances h' 1 = Some opts' \<and> sequence h' opts' = [isEven, isPositive, isPositive]) \<and>
   (\<exists>h' opts'.
      apply_in_order
        [fst (WithMiddleware_args rt0 [isEven, isPositive] fresh_heap),
         fst (WithMiddleware_args rt0 [isEven]
           (snd (WithMiddleware_args rt0 [isEven, isPositive] fresh_heap)))]
        (Ptr 1)
        (snd (WithMiddleware_args rt0 [isEven]
           (snd (WithMiddleware_args rt0 [isEven, isPositive] fresh_heap)))) = Inr h' \<and>
      instances h' 1 = Some opts' \<and> sequence h' opts' = [isEven, isPositive, isEven])"
proof -
  have live: "instances batches_mutated_heap 1 = Some \<lparr>middlewares = nil_slice\<rparr>"
    and live0: "instances fresh_heap 1 = Some \<lparr>middlewares = nil_slice\<rparr>"
    by (simp_all add: batches_mutated_heap_def fresh_heap_def)
  have v: "valid_slice batches_mutated_heap (middlewares \<lparr>middlewares = nil_slice\<rparr>)"
    and v0: "valid_slice fresh_heap (middlewares \<lparr>middlewares = nil_slice\<rparr>)"
    by (simp_all add: run_defs)
  have b: "\<forall>t\<in>set [pair_slice, second_slice]. valid_slice batches_mutated_heap t \<and>
      \<not> writes_into (middlewares \<lparr>middlewares = nil_slice\<rparr>) t"
    and b0: "\<forall>t\<in>set []. valid_slice fresh_heap t \<and>
      \<not> writes_into (middlewares \<lparr>middlewares = nil_slice\<rparr>) t"
    by (simp_all add: run_defs batches_mutated_heap_def)
  have e: "sequence batches_mutated_heap \<lparr>middlewares = nil_slice\<rparr> = []"
    "elems batches_mutated_heap pair_slice = [isEven, isPositive]"
    "elems batches_mutated_heap second_slice = [isPositive]"
    "sequence fresh_heap \<lparr>middlewares = nil_slice\<rparr> = []"
    by (simp_all add: run_defs batches_mutated_heap_def fresh_heap_def)
  from WithMiddleware_concatenation
      [OF live v b, of rt0 fresh_heap isEven isEven isEven, THEN conjunct1]
    WithMiddleware_concatenation
      [OF live0 v0 b0, of rt0 fresh_heap isEven isPositive isEven, THEN conjunct2]
  show ?thesis by (simp add: e)
qed

text \<open>
  Claim C5. The function returned by \<^verbatim>\<open>WithMiddleware\<close> for zero middlewares (an empty
  slice, or a call with no argument) changes nothing: whatever pointer it is applied
  to, it returns normally with the heap, and so every instance's middleware sequence,
  as it was.
\<close>

theorem WithMiddleware_zero_noop:
  "(len ms = 0 \<longrightarrow> fst (WithMiddleware rt ms h0) p h = Inr h) \<and>
   fst (WithMiddleware_args rt [] h0) p h = Inr h"
  by (simp add: WithMiddleware_args_def variadic_def nil_slice_def fst_WithMiddleware
      WithMiddleware_func_empty)

theorem WithMiddleware_zero_noop_witness:
  "fst (WithMiddleware rt0 nil_slice fresh_heap) (Ptr 1) fresh_heap = Inr fresh_heap \<and>
   fst (WithMiddleware rt0 nil_slice fresh_heap) NilPtr fresh_heap = Inr fresh_heap \<and>
   fst (WithMiddleware_args rt0 [] fresh_heap) (Ptr 1) fresh_heap = Inr fresh_heap"
  using WithMiddleware_zero_noop[of nil_slice rt0 fresh_heap "Ptr 1" fresh_heap]
    WithMiddleware_zero_noop[of nil_slice rt0 fresh_heap NilPtr fresh_heap]
  by (simp add: nil_slice_def)

text \<open>
  Claim C7. Registration has no failure outcome: for every batch (empty, with
  repeated middlewares, or sharing its array with the instance) the call of
  \<^verbatim>\<open>WithMiddleware\<close> returns its function, and that function, applied to any live options
  instance, returns normally with a heap.
\<close>

theorem WithMiddleware_never_fails:
  "instances h a = Some opts \<Longrightarrow> valid_slice h (middlewares opts) \<Longrightarrow> valid_slice h ms \<Longrightarrow>
   \<exists>f h'. WithMiddleware rt ms h0 = (f, h0) \<and> f (Ptr a) h = Inr h'"
  using WithMiddleware_func_run[of h a opts ms rt] by (auto simp add: WithMiddleware_def)

theorem WithMiddleware_never_fails_witness:
  "(\<exists>f h'. WithMiddleware rt0 nil_slice fresh_heap = (f, fresh_heap) \<and>
      f (Ptr 1) shared_heap = Inr h') \<and>
   (\<exists>f h'. WithMiddleware rt0 whole_slice fresh_heap = (f, fresh_heap) \<and>
      f (Ptr 1) shared_heap = Inr h')"
proof -
  have live: "instances shared_heap 1 = Some \<lparr>middlewares = \<lparr>arr = 0, off = 0, len = 1, cap = 4\<rparr>\<rparr>"
    by (simp add: shared_heap_def)
  have v: "valid_slice shared_heap (middlewares \<lparr>middlewares = \<lparr>arr = 0, off = 0, len = 1, cap = 4\<rparr>\<rparr>)"
    by (simp add: valid_slice_def shared_heap_def)
  have v0: "valid_slice shared_heap nil_slice"
    by (simp add: valid_slice_def nil_slice_def)
  have v2: "valid_slice shared_heap whole_slice"
    by (simp add: valid_slice_def whole_slice_def shared_heap_def)
  from WithMiddleware_never_fails[OF live v v0, of rt0 fresh_heap]
    WithMiddleware_never_fails[OF live v v2, of rt0 fresh_heap]
  show ?thesis by simp
qed

text \<open>
  Claim C8. Configuration is append-only: after applying the returned function, the
  instance's former middleware sequence is a prefix of its new one; nothing is removed,
  replaced or reordered, and the sequence never gets shorter. This holds whatever
  arrays the instance and the batch share.
\<close>

theorem WithMiddleware_append_only:
  "instances h a = Some opts \<Longrightarrow> valid_slice h (middlewares opts) \<Longrightarrow> valid_slice h ms \<Longrightarrow>
   \<exists>h' opts'. fst (WithMiddleware rt ms h0) (Ptr a) h = Inr h' \<and>
      instances h' a = Some opts' \<and>
      prefix (sequence h opts) (sequence h' opts') \<and>
      length (sequence h opts) \<le> length (sequence h' opts') \<and>
      take (length (sequence h opts)) (sequence h' opts') = sequence h opts"
proof -
  assume "instances h a = Some opts" and "valid_slice h (middlewares opts)"
    and "valid_slice h ms"
  from WithMiddleware_func_run[OF this, of rt]
  obtain h' s' xs where
    "WithMiddleware_func rt ms (Ptr a) h = Inr h'"
    "instances h' = (instances h)(a \<mapsto> opts\<lparr>middlewares := s'\<rparr>)"
    "elems h' s' = elems h (middlewares opts) @ xs"
    by blast
  then show ?thesis
    by (intro exI[of _ h'] exI[of _ "opts\<lparr>middlewares := s'\<rparr>"])
      (simp add: fst_WithMiddleware sequence_def)
qed

theorem WithMiddleware_append_only_witness:
  "\<exists>h' opts'. fst (WithMiddleware rt0 whole_slice fresh_heap) (Ptr 1) aliased_heap = Inr h' \<and>
      instances h' 1 = Some opts' \<and> prefix [isEven] (sequence h' opts') \<and>
      1 \<le> length (sequence h' opts') \<and> take 1 (sequence h' opts') = [isEven]"
proof -
  have live: "instances aliased_heap 1 = Some \<lparr>middlewares = \<lparr>arr = 0, off = 0, len = 1, cap = 4\<rparr>\<rparr>"
    by (simp add: aliased_heap_def)
  have v: "valid_slice aliased_heap (middlewares \<lparr>middlewares = \<lparr>arr = 0, off = 0, len = 1, cap = 4\<rparr>\<rparr>)"
    by (simp add: valid_slice_def aliased_heap_def)
  have v2: "valid_slice aliased_heap whole_slice"
    by (simp add: valid_slice_def whole_slice_def aliased_heap_def)
  have s: "sequence aliased_heap \<lparr>middlewares = \<lparr>arr = 0, off = 0, len = 1, cap = 4\<rparr>\<rparr> = [isEven]"
    by (simp add: sequence_def elems_def aliased_heap_def)
  from WithMiddleware_append_only[OF live v v2, of rt0 fresh_heap, unfolded s]
  show ?thesis by simp
qed

text \<open>
  Claim C9, as stated, says that invoking the returned function changes nothing but
  the middleware sequence of the target instance. When there is room, \<^verbatim>\<open>append\<close> writes
  into the backing array in place, and another instance whose slice shares that array
  sees the write: with \<^verbatim>\<open>o1.middlewares = s[:1]; o2.middlewares = s[:2]\<close>, applying the
  function for \<open>[isPositive]\<close> to \<open>o1\<close> turns the sequence of \<open>o2\<close> from
  \<open>[isEven, isEven]\<close> into \<open>[isEven, isPositive]\<close>.
\<close>

theorem appending_overwrites_shared_array:
  "sequence_after (Inr shared_heap) 1 = Some [isEven] \<and>
   sequence_after (Inr shared_heap) 2 = Some [isEven, isEven] \<and>
   sequence_after (fst (WithMiddleware rt0 second_slice shared_heap) (Ptr 1) shared_heap) 1 =
     Some [isEven, isPositive] \<and>
   sequence_after (fst (WithMiddleware rt0 second_slice shared_heap) (Ptr 1) shared_heap) 2 =
     Some [isEven, isPositive] \<and>
   [isEven, isPositive] \<noteq> [isEven, isEven]"
  by (simp add: run_defs shared_heap_def isPositive_neq_isEven)

text \<open>
  Claim C9, amended. The call of \<^verbatim>\<open>WithMiddleware\<close> itself leaves the heap as it is.
  Applying the returned function to a live instance changes, of that instance, only
  the field \<^verbatim>\<open>middlewares\<close>; it changes no field of any other instance and creates or
  removes no instance; and every slice none of whose elements lies in the spare
  capacity of the target's slice, in particular the middleware sequence of every other
  instance with such a slice, holds the same elements afterwards.
\<close>

theorem WithMiddleware_frame:
  "instances h a = Some opts \<Longrightarrow> valid_slice h (middlewares opts) \<Longrightarrow> valid_slice h ms \<Longrightarrow>
   snd (WithMiddleware rt ms h0) = h0 \<and>
   (\<exists>h' opts'. fst (WithMiddleware rt ms h0) (Ptr a) h = Inr h' \<and>
      instances h' a = Some opts' \<and>
      opts' = opts\<lparr>middlewares := middlewares opts'\<rparr> \<and>
      options.more opts' = options.more opts \<and>
      (\<forall>b. b \<noteq> a \<longrightarrow> instances h' b = instances h b) \<and>
      dom (instances h') = dom (instances h) \<and>
      (\<forall>t. valid_slice h t \<and> \<not> writes_into (middlewares opts) t \<longrightarrow>
         elems h' t = elems h t) \<and>
      (\<forall>b optsb. b \<noteq> a \<and> instances h b = Some optsb \<and>
         valid_slice h (middlewares optsb) \<and>
         \<not> writes_into (middlewares opts) (middlewares optsb) \<longrightarrow>
         instances h' b = Some optsb \<and> sequence h' optsb = sequence h optsb))"
proof -
  assume live: "instances h a = Some opts" and "valid_slice h (middlewares opts)"
    and "valid_slice h ms"
  from WithMiddleware_func_run[OF this, of rt]
  obtain h' s' where run:
    "WithMiddleware_func rt ms (Ptr a) h = Inr h'"
    "instances h' = (instances h)(a \<mapsto> opts\<lparr>middlewares := s'\<rparr>)"
    "\<forall>t. valid_slice h t \<and> \<not> writes_into (middlewares opts) t \<longrightarrow>
        elems h' t = elems h t \<and> \<not> writes_into s' t"
    by blast
  have "dom (instances h') = dom (instances h)"
    using run(2) live by auto
  with run show ?thesis
    by (intro conjI exI[of _ h'] exI[of _ "opts\<lparr>middlewares := s'\<rparr>"])
      (simp_all add: WithMiddleware_def sequence_def)
qed

theorem WithMiddleware_frame_witness:
  "snd (WithMiddleware rt0 second_slice own_heap) = own_heap \<and>
   (\<exists>h' opts'. fst (WithMiddleware rt0 second_slice own_heap) (Ptr 1) own_heap = Inr h' \<and>
      instances h' 1 = Some opts' \<and> options.more opts' = True \<and>
      instances h' 2 = Some \<lparr>middlewares = nil_slice, \<dots> = False\<rparr> \<and>
      dom (instances h') = {1, 2} \<and>
      elems h' second_slice = [isPositive] \<and>
      sequence h' \<lparr>middlewares = nil_slice, \<dots> = False\<rparr> = [])"
proof -
  let ?o1 = "\<lparr>middlewares = first_slice, \<dots> = True\<rparr>"
  let ?o2 = "\<lparr>middlewares = nil_slice, \<dots> = False\<rparr>"
  have live: "instances own_heap 1 = Some ?o1"
    by (simp add: own_heap_def)
  have v: "valid_slice own_heap (middlewares ?o1)" and vms: "valid_slice own_heap second_slice"
    by (simp_all add: run_defs own_heap_def)
  have other: "(2::nat) \<noteq> 1 \<and> instances own_heap 2 = Some ?o2 \<and>
      valid_slice own_heap (middlewares ?o2) \<and>
      \<not> writes_into (middlewares ?o1) (middlewares ?o2)"
    by (simp add: run_defs own_heap_def)
  have batch: "valid_slice own_heap second_slice \<and>
      \<not> writes_into (middlewares ?o1) second_slice"
    by (simp add: run_defs own_heap_def)
  have d: "dom (instances own_heap) = {1, 2}"
    by (auto simp add: own_heap_def)
  have e: "elems own_heap second_slice = [isPositive]" "sequence own_heap ?o2 = []"
    by (simp_all add: run_defs own_heap_def)
  from WithMiddleware_frame[OF live v vms, of rt0 own_heap]
  obtain h' opts' where f:
    "snd (WithMiddleware rt0 second_slice own_heap) = own_heap"
    "fst (WithMiddleware rt0 second_slice own_heap) (Ptr 1) own_heap = Inr h'"
    "instances h' 1 = Some opts'"
    "options.more opts' = options.more ?o1"
    "dom (instances h') = dom (instances own_heap)"
    "\<forall>t. valid_slice own_heap t \<and> \<not> writes_into (middlewares ?o1) t \<longrightarrow>
         elems h' t = elems own_heap t"
    "\<forall>b optsb. b \<noteq> 1 \<and> instances own_heap b = Some optsb \<and>
         valid_slice own_heap (middlewares optsb) \<and>
         \<not> writes_into (middlewares ?o1) (middlewares optsb) \<longrightarrow>
         instances h' b = Some optsb \<and> sequence h' optsb = sequence own_heap optsb"
    by blast
  from f(6) batch have "elems h' second_slice = [isPositive]"
    using e(1) by simp
  moreover from f(7) other have "instances h' 2 = Some ?o2 \<and> sequence h' ?o2 = []"
    using e(2) by metis
  ultimately show ?thesis
    using f(1,2,3,4,5) d by (intro conjI exI[of _ h'] exI[of _ opts']) simp_all
qed

text \<open>
  Claim C10, as stated, says that every application of the returned function appends
  the batch that was passed. The batch is read at each application: after
  \<^verbatim>\<open>f := WithMiddleware(s...); f(o); s[0] = isPositive; f(o)\<close> with \<open>s\<close> holding \<open>isEven\<close>,
  the instance holds \<open>[isEven, isPositive]\<close>, not two copies of \<open>[isEven]\<close>.
\<close>

theorem batch_mutated_between_applications:
  "fst (WithMiddleware rt0 first_slice fresh_heap) (Ptr 1) fresh_heap = Inr applied_heap \<and>
   sequence_after (Inr applied_heap) 1 = Some [isEven] \<and>
   slice_assign applied_heap first_slice 0 isPositive = Inr remutated_heap \<and>
   sequence_after (fst (WithMiddleware rt0 first_slice fresh_heap) (Ptr 1) remutated_heap) 1 =
     Some [isEven, isPositive] \<and>
   [isEven, isPositive] \<noteq> [] @ concat (replicate 2 [isEven])"
  by (simp add: run_defs fresh_heap_def applied_heap_def remutated_heap_def
      isPositive_neq_isEven)

text \<open>
  Claim C10, amended. The function returned by one call of \<^verbatim>\<open>WithMiddleware\<close> can be
  applied again and again. Provided no element of the batch lies in the spare capacity
  of the instance's slice, \<open>k\<close> applications in a row to one instance extend its
  sequence by \<open>k\<close> copies of what the batch slice holds, each in order; and applied to
  two different instances, where the batch lies in the spare capacity of neither and
  no element of the second lies in the spare capacity of the first, it appends what
  the batch slice holds to each.
\<close>

theorem WithMiddleware_reusable:
  "instances h a = Some opts \<Longrightarrow> valid_slice h (middlewares opts) \<Longrightarrow> valid_slice h ms \<Longrightarrow>
   \<not> writes_into (middlewares opts) ms \<Longrightarrow>
   (\<exists>h' opts'.
      apply_in_order (replicate k (fst (WithMiddleware rt ms h0))) (Ptr a) h = Inr h' \<and>
      instances h' a = Some opts' \<and>
      sequence h' opts' = sequence h opts @ concat (replicate k (elems h ms))) \<and>
   (b \<noteq> a \<and> instances h b = Some optsb \<and> valid_slice h (middlewares optsb) \<and>
    \<not> writes_into (middlewares optsb) ms \<and>
    \<not> writes_into (middlewares opts) (middlewares optsb) \<longrightarrow>
      (\<exists>h1 h2 opts1 opts2.
         fst (WithMiddleware rt ms h0) (Ptr a) h = Inr h1 \<and>
         instances h1 a = Some opts1 \<and>
         sequence h1 opts1 = sequence h opts @ elems h ms \<and>
         fst (WithMiddleware rt ms h0) (Ptr b) h1 = Inr h2 \<and>
         instances h2 b = Some opts2 \<and>
         sequence h2 opts2 = sequence h optsb @ elems h ms))"
proof (intro conjI impI)
  assume live: "instances h a = Some opts" and v: "valid_slice h (middlewares opts)"
    and vms: "valid_slice h ms" and clear: "\<not> writes_into (middlewares opts) ms"
  have "\<forall>t\<in>set (replicate k ms). valid_slice h t \<and> \<not> writes_into (middlewares opts) t"
    using vms clear by simp
  from apply_in_order_sequence[OF live v this, of rt h0]
  show "\<exists>h' opts'.
      apply_in_order (replicate k (fst (WithMiddleware rt ms h0))) (Ptr a) h = Inr h' \<and>
      instances h' a = Some opts' \<and>
      sequence h' opts' = sequence h opts @ concat (replicate k (elems h ms))"
    by (simp add: map_replicate)
  assume other: "b \<noteq> a \<and> instances h b = Some optsb \<and> valid_slice h (middlewares optsb) \<and>
    \<not> writes_into (middlewares optsb) ms \<and>
    \<not> writes_into (middlewares opts) (middlewares optsb)"
  from WithMiddleware_func_run[OF live v vms, of rt]
  obtain h1 s1 xs where one:
    "WithMiddleware_func rt ms (Ptr a) h = Inr h1"
    "instances h1 = (instances h)(a \<mapsto> opts\<lparr>middlewares := s1\<rparr>)"
    "elems h1 s1 = elems h (middlewares opts) @ xs"
    "\<not> writes_into (middlewares opts) ms \<longrightarrow> xs = elems h ms"
    "\<forall>t. valid_slice h t \<longrightarrow> valid_slice h1 t"
    "\<forall>t. valid_slice h t \<and> \<not> writes_into (middlewares opts) t \<longrightarrow>
        elems h1 t = elems h t \<and> \<not> writes_into s1 t"
    by blast
  have liveb: "instances h1 b = Some optsb"
    using one(2) other by simp
  have vb: "valid_slice h1 (middlewares optsb)" and vms1: "valid_slice h1 ms"
    using one(5) other vms by simp_all
  have same: "elems h1 ms = elems h ms" "elems h1 (middlewares optsb) = elems h (middlewares optsb)"
    using one(6) vms clear other by simp_all
  from WithMiddleware_func_run[OF liveb vb vms1, of rt]
  obtain h2 s2 ys where two:
    "WithMiddleware_func rt ms (Ptr b) h1 = Inr h2"
    "instances h2 = (instances h1)(b \<mapsto> optsb\<lparr>middlewares := s2\<rparr>)"
    "elems h2 s2 = elems h1 (middlewares optsb) @ ys"
    "\<not> writes_into (middlewares optsb) ms \<longrightarrow> ys = elems h1 ms"
    by blast
  show "\<exists>h1 h2 opts1 opts2.
         fst (WithMiddleware rt ms h0) (Ptr a) h = Inr h1 \<and>
         instances h1 a = Some opts1 \<and>
         sequence h1 opts1 = sequence h opts @ elems h ms \<and>
         fst (WithMiddleware rt ms h0) (Ptr b) h1 = Inr h2 \<and>
         instances h2 b = Some opts2 \<and>
         sequence h2 opts2 = sequence h optsb @ elems h ms"
    using one(1,2,3,4) two clear other same
    by (intro exI[of _ h1] exI[of _ h2] exI[of _ "opts\<lparr>middlewares := s1\<rparr>"]
        exI[of _ "optsb\<lparr>middlewares := s2\<rparr>"])
      (simp add: fst_WithMiddleware sequence_def)
qed

theorem WithMiddleware_reusable_witness:
  "(\<exists>h' opts'.
      apply_in_order (replicate 2 (fst (WithMiddleware rt0 second_slice own_heap))) (Ptr 1)
        own_heap = Inr h' \<and>
      instances h' 1 = Some opts' \<and>
      sequence h' opts' = [isEven, isPositive, isPositive]) \<and>
   (\<exists>h1 h2 opts1 opts2.
      fst (WithMiddleware rt0 second_slice own_heap) (Ptr 1) own_heap = Inr h1 \<and>
      instances h1 1 = Some opts1 \<and> sequence h1 opts1 = [isEven, isPositive] \<and>
      fst (WithMiddleware rt0 second_slice own_heap) (Ptr 2) h1 = Inr h2 \<and>
      instances h2 2 = Some opts2 \<and> sequence h2 opts2 = [isPositive])"
proof -
  let ?o1 = "\<lparr>middlewares = first_slice, \<dots> = True\<rparr>"
  let ?o2 = "\<lparr>middlewares = nil_slice, \<dots> = False\<rparr>"
  have live: "instances own_heap 1 = Some ?o1"
    by (simp add: own_heap_def)
  have v: "valid_slice own_heap (middlewares ?o1)" and vms: "valid_slice own_heap second_slice"
    and clear: "\<not> writes_into (middlewares ?o1) second_slice"
    by (simp_all add: run_defs own_heap_def)
  have other: "(2::nat) \<noteq> 1 \<and> instances own_heap 2 = Some ?o2 \<and>
      valid_slice own_heap (middlewares ?o2) \<and>
      \<not> writes_into (middlewares ?o2) second_slice \<and>
      \<not> writes_into (middlewares ?o1) (middlewares ?o2)"
    by (simp add: run_defs own_heap_def)
  have e: "elems own_heap second_slice = [isPositive]" "sequence own_heap ?o1 = [isEven]"
    "sequence own_heap ?o2 = []"
    by (simp_all add: run_defs own_heap_def)
  note inst = WithMiddleware_reusable[OF live v vms clear, of 2 rt0 own_heap 2 ?o2]
  from inst[THEN conjunct1] inst[THEN conjunct2] other
  show ?thesis by (simp add: e eval_nat_numeral)
qed

subsection \<open>Registration and evaluation\<close>

text \<open>
  Claim C6, as stated, says that a middleware registered \<open>k\<close> times is evaluated \<open>k\<close>
  times for each value. Short-circuit evaluation contradicts this: after
  \<^verbatim>\<open>WithMiddleware(isPositive, isPositive)\<close> is applied to a fresh instance, the value
  \<open>-4\<close> is rejected at position 0, so \<open>isPositive\<close> stands twice in the sequence and is
  evaluated once.
\<close>

theorem registered_twice_evaluated_once:
  "fst (WithMiddleware_args rt0 [isPositive, isPositive] fresh_heap) (Ptr 1)
     (snd (WithMiddleware_args rt0 [isPositive, isPositive] fresh_heap)) =
     Inr registered_twice_heap \<and>
   instances registered_twice_heap 1 = Some \<lparr>middlewares = twice_slice\<rparr> \<and>
   sequence registered_twice_heap \<lparr>middlewares = twice_slice\<rparr> = [isPositive, isPositive] \<and>
   count_list (sequence registered_twice_heap \<lparr>middlewares = twice_slice\<rparr>) isPositive = 2 \<and>
   evaluate registered_twice_heap \<lparr>middlewares = twice_slice\<rparr> (- 4) = (Rejected, [0]) \<and>
   invoked registered_twice_heap \<lparr>middlewares = twice_slice\<rparr> (- 4) = [isPositive] \<and>
   count_list (invoked registered_twice_heap \<lparr>middlewares = twice_slice\<rparr> (- 4)) isPositive = 1 \<and>
   count_list (invoked registered_twice_heap \<lparr>middlewares = twice_slice\<rparr> (- 4)) isPositive \<noteq>
     count_list (sequence registered_twice_heap \<lparr>middlewares = twice_slice\<rparr>) isPositive"
  by (simp add: run_defs fresh_heap_def registered_twice_heap_def evaluate_def invoked_def
      isPositive_def)

text \<open>
  Claim C6, amended. Registration never merges duplicates: applying the functions for
  a list of batches appends every element of every batch (no element of a batch lying
  in the spare capacity of the instance's slice), so a middleware appears in the final
  sequence as many more times as it stands in the batches. For each value, evaluation
  invokes the middlewares position by position, in order, up to and including the
  first one that returns false: a value that passes has every position invoked, and
  the middleware is evaluated as many times as it appears; a value first rejected at
  position \<open>i\<close> has exactly the positions \<open>0, ..., i\<close> invoked, and the middleware is
  evaluated once for each of its positions among them.
\<close>

theorem registered_k_times:
  "instances h a = Some opts \<Longrightarrow> valid_slice h (middlewares opts) \<Longrightarrow>
   \<forall>t\<in>set batches. valid_slice h t \<and> \<not> writes_into (middlewares opts) t \<Longrightarrow>
   \<exists>h' opts'.
     apply_in_order (map (\<lambda>ms. fst (WithMiddleware rt ms h0)) batches) (Ptr a) h = Inr h' \<and>
     instances h' a = Some opts' \<and>
     sequence h' opts' = sequence h opts @ concat (map (elems h) batches) \<and>
     count_list (sequence h' opts') M =
       count_list (sequence h opts) M + count_list (concat (map (elems h) batches)) M \<and>
     (\<forall>v. fst (evaluate h' opts' v) = Passed \<longrightarrow>
        invoked h' opts' v = sequence h' opts' \<and>
        count_list (invoked h' opts' v) M = count_list (sequence h' opts') M) \<and>
     (\<forall>v i. i < length (sequence h' opts') \<and> \<not> (sequence h' opts' ! i) v \<and>
        (\<forall>k<i. (sequence h' opts' ! k) v) \<longrightarrow>
        fst (evaluate h' opts' v) = Rejected \<and>
        snd (evaluate h' opts' v) = [0 ..< Suc i] \<and>
        invoked h' opts' v = take (Suc i) (sequence h' opts') \<and>
        count_list (invoked h' opts' v) M = count_list (take (Suc i) (sequence h' opts')) M)"
proof -
  assume "instances h a = Some opts" and "valid_slice h (middlewares opts)"
    and "\<forall>t\<in>set batches. valid_slice h t \<and> \<not> writes_into (middlewares opts) t"
  from apply_in_order_sequence[OF this, of rt h0]
  obtain h' opts' where reg:
    "apply_in_order (map (\<lambda>ms. fst (WithMiddleware rt ms h0)) batches) (Ptr a) h = Inr h'"
    "instances h' a = Some opts'"
    "sequence h' opts' = sequence h opts @ concat (map (elems h) batches)"
    by blast
  have "count_list (sequence h' opts') M =
      count_list (sequence h opts) M + count_list (concat (map (elems h) batches)) M"
    by (simp add: reg(3))
  moreover have "\<forall>v. fst (evaluate h' opts' v) = Passed \<longrightarrow>
        invoked h' opts' v = sequence h' opts' \<and>
        count_list (invoked h' opts' v) M = count_list (sequence h' opts') M"
    by (simp add: invoked_passed)
  moreover have "\<forall>v i. i < length (sequence h' opts') \<and> \<not> (sequence h' opts' ! i) v \<and>
        (\<forall>k<i. (sequence h' opts' ! k) v) \<longrightarrow>
        fst (evaluate h' opts' v) = Rejected \<and>
        snd (evaluate h' opts' v) = [0 ..< Suc i] \<and>
        invoked h' opts' v = take (Suc i) (sequence h' opts') \<and>
        count_list (invoked h' opts' v) M = count_list (take (Suc i) (sequence h' opts')) M"
  proof (intro allI impI)
    fix v i
    assume r: "i < length (sequence h' opts') \<and> \<not> (sequence h' opts' ! i) v \<and>
        (\<forall>k<i. (sequence h' opts' ! k) v)"
    then have "fst (evaluate h' opts' v) = Rejected"
      using evaluate_rejected_at(1)[of i h' opts' v] by simp
    moreover have "snd (evaluate h' opts' v) = [0 ..< Suc i]"
      using r evaluate_first_rejection[of i h' opts' v] by simp
    moreover have "invoked h' opts' v = take (Suc i) (sequence h' opts')"
      using r invoked_first_rejection[of i h' opts' v] by simp
    ultimately show "fst (evaluate h' opts' v) = Rejected \<and>
        snd (evaluate h' opts' v) = [0 ..< Suc i] \<and>
        invoked h' opts' v = take (Suc i) (sequence h' opts') \<and>
        count_list (invoked h' opts' v) M = count_list (take (Suc i) (sequence h' opts')) M"
      by simp
  qed
  ultimately show ?thesis
    using reg by blast
qed

theorem registered_k_times_witness:
  "\<exists>h' opts'.
     apply_in_order
       [fst (WithMiddleware rt0 pair_slice batches_heap),
        fst (WithMiddleware rt0 second_slice batches_heap)] (Ptr 1) batches_heap = Inr h' \<and>
     instances h' 1 = Some opts' \<and>
     sequence h' opts' = [isEven, isPositive, isEven] \<and>
     count_list (sequence h' opts') isEven = 2 \<and>
     evaluate h' opts' 4 = (Passed, [0, 1, 2]) \<and>
     count_list (invoked h' opts' 4) isEven = 2 \<and>
     evaluate h' opts' (- 4) = (Rejected, [0, 1]) \<and>
     invoked h' opts' (- 4) = [isEven, isPositive] \<and>
     count_list (invoked h' opts' (- 4)) isEven = 1"
proof -
  have live: "instances batches_heap 1 = Some \<lparr>middlewares = nil_slice\<rparr>"
    by (simp add: batches_heap_def)
  have v: "valid_slice batches_heap (middlewares \<lparr>middlewares = nil_slice\<rparr>)"
    by (simp add: run_defs)
  have b: "\<forall>t\<in>set [pair_slice, second_slice]. valid_slice batches_heap t \<and>
      \<not> writes_into (middlewares \<lparr>middlewares = nil_slice\<rparr>) t"
    by (simp add: run_defs batches_heap_def)
  have e: "sequence batches_heap \<lparr>middlewares = nil_slice\<rparr> = []"
    "elems batches_heap pair_slice = [isEven, isPositive]"
    "elems batches_heap second_slice = [isEven]"
    by (simp_all add: run_defs batches_heap_def)
  from registered_k_times[OF live v b, of rt0 batches_heap isEven]
  obtain h' opts' where r:
    "apply_in_order
       [fst (WithMiddleware rt0 pair_slice batches_heap),
        fst (WithMiddleware rt0 second_slice batches_heap)] (Ptr 1) batches_heap = Inr h'"
    "instances h' 1 = Some opts'"
    "sequence h' opts' = [isEven, isPositive, isEven]"
    "count_list (sequence h' opts') isEven = 2"
    "\<forall>v. fst (evaluate h' opts' v) = Passed \<longrightarrow>
        invoked h' opts' v = sequence h' opts' \<and>
        count_list (invoked h' opts' v) isEven = count_list (sequence h' opts') isEven"
    "\<forall>v i. i < length (sequence h' opts') \<and> \<not> (sequence h' opts' ! i) v \<and>
        (\<forall>k<i. (sequence h' opts' ! k) v) \<longrightarrow>
        fst (evaluate h' opts' v) = Rejected \<and>
        snd (evaluate h' opts' v) = [0 ..< Suc i] \<and>
        invoked h' opts' v = take (Suc i) (sequence h' opts') \<and>
        count_list (invoked h' opts' v) isEven =
          count_list (take (Suc i) (sequence h' opts')) isEven"
    by (auto simp add: e isPositive_neq_isEven)
  have p: "evaluate h' opts' 4 = (Passed, [0, 1, 2])"
    by (simp add: evaluate_def r(3) isEven_def isPositive_def)
  then have "count_list (invoked h' opts' 4) isEven = 2"
    using r(5)[rule_format, of 4] r(4) by simp
  moreover have "1 < length (sequence h' opts') \<and> \<not> (sequence h' opts' ! 1) (- 4) \<and>
      (\<forall>k<1. (sequence h' opts' ! k) (- 4))"
    by (simp add: r(3) isEven_def isPositive_def)
  from r(6)[rule_format, OF this]
  have "evaluate h' opts' (- 4) = (Rejected, [0, 1]) \<and>
      invoked h' opts' (- 4) = [isEven, isPositive] \<and>
      count_list (invoked h' opts' (- 4)) isEven = 1"
    by (simp add: r(3) prod_eq_iff upt_rec isPositive_neq_isEven)
  ultimately show ?thesis
    using r(1,2,3,4) p by blast
qed

end
